theory Spec2Isabelle
  imports Main "HOL-Library.Sublist" "HOL-Library.AList"
begin

section \<open>Python values\<close>

text \<open>
  The harness is \<^verbatim>\<open>scripts/run_nqueens_benchmarks.py\<close>; its table is read back by
  \<^verbatim>\<open>scripts/plot_nqueens_results.py\<close>.  Text is modelled as \<open>string\<close>: a list of
  code points below 256, so the character predicates below are Python's on that
  range.  Python's \<open>int\<close> is \<open>int\<close>.  Python's \<open>float\<close> is a type parameter \<open>'f\<close>; the
  conversion \<^verbatim>\<open>float(s)\<close> is a parameter \<open>py_float\<close> whose result \<open>None\<close> stands for
  the \<^verbatim>\<open>ValueError\<close> it raises.  Console output of the harness (\<^verbatim>\<open>print\<close>) is not
  part of the model, except where formatting the message can raise.
\<close>

type_synonym path = "string list"
  \<comment> \<open>\<^verbatim>\<open>Path.parts\<close>: an absolute path starts with the part \<^verbatim>\<open>/\<close>\<close>

datatype runtime_message =
    FailedToParseMetrics
      \<comment> \<open>\<^verbatim>\<open>Failed to parse NQUEENS_METRICS from program output\<close>\<close>
  | ReportedSize string int int
      \<comment> \<open>\<^verbatim>\<open>Implementation {impl.name} reported size {measured_size} but expected {size}\<close>\<close>
  | MeasurementHelperFailed
  | MeasurementHelperNoData

datatype error =
    RuntimeError runtime_message
  | CalledProcessError int "string list" "string option" "string option"
      \<comment> \<open>returncode, cmd, output, stderr\<close>
  | ValueError string
  | IndexError
  | FileExistsError path
  | FileNotFoundError path
  | PermissionError path
  | OSError string
      \<comment> \<open>any other failure the operating system reports, with its message\<close>
  | IsADirectoryError path
  | NotADirectoryError path
  | KeyError string
  | TypeError
  | CsvError
      \<comment> \<open>\<^verbatim>\<open>_csv.Error\<close>: new-line character seen in unquoted field\<close>

subsection \<open>Characters and lines\<close>

definition isspace :: "char \<Rightarrow> bool" where
  \<comment> \<open>\<^verbatim>\<open>str.isspace\<close> and the class \<^verbatim>\<open>\s\<close> of a \<^verbatim>\<open>str\<close> pattern\<close>
  "isspace c =
     (let n = (of_char c :: nat)
      in (9 \<le> n \<and> n \<le> 13) \<or> (28 \<le> n \<and> n \<le> 32) \<or> n = 133 \<or> n = 160)"

definition isdigit :: "char \<Rightarrow> bool" where
  \<comment> \<open>the class \<^verbatim>\<open>\d\<close>\<close>
  "isdigit c = (let n = (of_char c :: nat) in 48 \<le> n \<and> n \<le> 57)"

definition is_linebreak :: "char \<Rightarrow> bool" where
  \<comment> \<open>the line boundaries of \<^verbatim>\<open>str.splitlines\<close>\<close>
  "is_linebreak c =
     (let n = (of_char c :: nat)
      in (10 \<le> n \<and> n \<le> 13) \<or> (28 \<le> n \<and> n \<le> 30) \<or> n = 133)"

definition strip :: "string \<Rightarrow> string" where
  "strip s = rev (dropWhile isspace (rev (dropWhile isspace s)))"

fun splitlines_from :: "string \<Rightarrow> string \<Rightarrow> string list" where
  "splitlines_from cur [] = (if cur = [] then [] else [cur])"
| "splitlines_from cur [c] =
     (if is_linebreak c then [cur] else [cur @ [c]])"
| "splitlines_from cur (c # d # cs) =
     (if c = CHR 0x0D \<and> d = CHR 0x0A then cur # splitlines_from [] cs
      else if is_linebreak c then cur # splitlines_from [] (d # cs)
      else splitlines_from (cur @ [c]) (d # cs))"

definition splitlines :: "string \<Rightarrow> string list" where
  "splitlines s = splitlines_from [] s"

definition digit_val :: "char \<Rightarrow> int" where
  "digit_val c = int (of_char c) - 48"

definition decimal_value :: "string \<Rightarrow> int" where
  \<comment> \<open>the number a string of decimal digits denotes\<close>
  "decimal_value s = foldl (\<lambda>acc c. 10 * acc + digit_val c) 0 s"

definition INT_MAX_STR_DIGITS :: nat where
  \<comment> \<open>\<^verbatim>\<open>sys.get_int_max_str_digits()\<close>, the interpreter's default\<close>
  "INT_MAX_STR_DIGITS = 4300"

definition py_int :: "string \<Rightarrow> error + int" where
  \<comment> \<open>\<^verbatim>\<open>int(s)\<close> on a non-empty string of decimal digits: the interpreter refuses
      to convert more than \<open>INT_MAX_STR_DIGITS\<close> digits, leading zeros counted\<close>
  "py_int s =
     (if INT_MAX_STR_DIGITS < length s then Inl (ValueError s) else Inr (decimal_value s))"

subsection \<open>Regular expressions\<close>

text \<open>
  The fragment of \<^verbatim>\<open>re\<close> that \<^verbatim>\<open>METRIC_PATTERN\<close> is written in: a sequence of
  literals, greedy repetitions of a character class, and capturing groups around
  one of these.  \<open>m\<close> is the backtracking matcher anchored at the head of the text:
  each item is tried at the lengths \<open>candidates\<close> lists, longest first, and the
  first length at which the rest of the pattern matches wins.  \<open>search\<close> tries the
  start positions from left to right.  The result is the list of the groups'
  texts.
\<close>

datatype atom =
    Lit string
  | Star "char \<Rightarrow> bool"
  | Plus "char \<Rightarrow> bool"
  | Group atom

fun candidates :: "atom \<Rightarrow> string \<Rightarrow> nat list" where
  "candidates (Lit l) s = (if prefix l s then [length l] else [])"
| "candidates (Star c) s = rev [0..<Suc (length (takeWhile c s))]"
| "candidates (Plus c) s = rev [1..<Suc (length (takeWhile c s))]"
| "candidates (Group a) s = candidates a s"

fun is_group :: "atom \<Rightarrow> bool" where
  "is_group (Group a) = True"
| "is_group a = False"

fun first_some :: "('a \<Rightarrow> 'b option) \<Rightarrow> 'a list \<Rightarrow> 'b option" where
  "first_some f [] = None"
| "first_some f (x # xs) = (case f x of Some r \<Rightarrow> Some r | None \<Rightarrow> first_some f xs)"

fun m :: "atom list \<Rightarrow> string \<Rightarrow> string list \<Rightarrow> string list option" where
  "m [] s groups = Some groups"
| "m (a # rest) s groups =
     first_some
       (\<lambda>n. m rest (drop n s) (if is_group a then groups @ [take n s] else groups))
       (candidates a s)"

fun search :: "atom list \<Rightarrow> string \<Rightarrow> string list option" where
  "search re [] = m re [] []"
| "search re (c # cs) =
     (case m re (c # cs) [] of Some g \<Rightarrow> Some g | None \<Rightarrow> search re cs)"

section \<open>Metrics extraction\<close>

definition MARKER :: string where
  "MARKER = ''NQUEENS_METRICS''"

definition not_char :: "char \<Rightarrow> char \<Rightarrow> bool" where
  \<comment> \<open>the class \<^verbatim>\<open>[^c]\<close>\<close>
  "not_char c x = (x \<noteq> c)"

definition digit_or_dot :: "char \<Rightarrow> bool" where
  \<comment> \<open>the class \<^verbatim>\<open>[0-9.]\<close>\<close>
  "digit_or_dot x = (isdigit x \<or> x = CHR ''.'')"

definition METRIC_PATTERN :: "atom list" where
  \<comment> \<open>\<^verbatim>\<open>NQUEENS_METRICS\s+[^n]*n=(\d+)\s+[^s]*solutions=([0-9.]+)\s+[^n]*nodes=(\d+)\<close>\<close>
  "METRIC_PATTERN =
     [Lit MARKER, Plus isspace, Star (not_char CHR ''n''), Lit ''n='', Group (Plus isdigit),
      Plus isspace, Star (not_char CHR ''s''), Lit ''solutions='', Group (Plus digit_or_dot),
      Plus isspace, Star (not_char CHR ''n''), Lit ''nodes='', Group (Plus isdigit)]"

fun scan_lines :: "string list option \<Rightarrow> string list \<Rightarrow> string list option" where
  \<comment> \<open>the loop of \<^verbatim>\<open>parse_metrics\<close>: \<open>match\<close> is overwritten by every line that matches\<close>
  "scan_lines match [] = match"
| "scan_lines match (line # lines) =
     (case search METRIC_PATTERN line of
        Some maybe \<Rightarrow> scan_lines (Some maybe) lines
      | None \<Rightarrow> scan_lines match lines)"

definition parse_metrics ::
  "(string \<Rightarrow> 'f option) \<Rightarrow> string \<Rightarrow> error + (int \<times> 'f \<times> int)" where
  "parse_metrics py_float stdout =
     (case scan_lines None (splitlines (strip stdout)) of
        None \<Rightarrow> Inl (RuntimeError FailedToParseMetrics)
      | Some [g1, g2, g3] \<Rightarrow>
          (case py_int g1 of
             Inl e \<Rightarrow> Inl e
           | Inr size' \<Rightarrow>
               (case py_float g2 of
                  None \<Rightarrow> Inl (ValueError g2)
                | Some solutions \<Rightarrow>
                    (case py_int g3 of
                       Inl e \<Rightarrow> Inl e
                     | Inr nodes \<Rightarrow> Inr (size', solutions, nodes))))
      | Some _ \<Rightarrow> Inl IndexError)"

subsection \<open>The metrics line of the specification\<close>

text \<open>
  The grammar of the metrics line as the specification words it.  The tokens of a
  line are its maximal runs of characters that are not white space.  A line
  qualifies when its tokens hold, in this order and with any other tokens between
  them, the marker, an \<^verbatim>\<open>n=<integer>\<close> field, a \<^verbatim>\<open>solutions=<decimal>\<close> field and a
  \<^verbatim>\<open>nodes=<integer>\<close> field.  An integer is a non-empty run of digits; a decimal is
  a run of digits with at most one dot in it.
\<close>

fun split_from :: "string \<Rightarrow> string \<Rightarrow> string list" where
  "split_from cur [] = (if cur = [] then [] else [cur])"
| "split_from cur (c # cs) =
     (if isspace c then (if cur = [] then split_from [] cs else cur # split_from [] cs)
      else split_from (cur @ [c]) cs)"

definition tokens :: "string \<Rightarrow> string list" where
  "tokens l = split_from [] l"

definition is_integer :: "string \<Rightarrow> bool" where
  "is_integer s = (s \<noteq> [] \<and> list_all isdigit s)"

definition is_decimal :: "string \<Rightarrow> bool" where
  "is_decimal s =
     (list_ex isdigit s \<and> list_all digit_or_dot s \<and>
      length (filter (\<lambda>c. c = CHR ''.'') s) \<le> 1)"

definition field :: "string \<Rightarrow> (string \<Rightarrow> bool) \<Rightarrow> string \<Rightarrow> bool" where
  \<comment> \<open>the token is \<open>key\<close> followed by a value\<close>
  "field key val tok = (prefix key tok \<and> val (drop (length key) tok))"

fun in_order :: "('a \<Rightarrow> bool) list \<Rightarrow> 'a list \<Rightarrow> bool" where
  \<comment> \<open>some elements of the list satisfy the predicates, one each, in their order\<close>
  "in_order [] ts = True"
| "in_order (p # ps) [] = False"
| "in_order (p # ps) (t # ts) = ((p t \<and> in_order ps ts) \<or> in_order (p # ps) ts)"

definition qualifying_line :: "string \<Rightarrow> bool" where
  "qualifying_line l =
     in_order
       [\<lambda>tok. tok = MARKER, field ''n='' is_integer, field ''solutions='' is_decimal,
        field ''nodes='' is_integer]
       (tokens l)"

text \<open>
  What a line must hold for the pattern to match it, whether or not it qualifies:
  the marker and, after it and in this order, \<^verbatim>\<open>n=\<close> before a digit, \<^verbatim>\<open>solutions=\<close>
  before a digit or a dot and \<^verbatim>\<open>nodes=\<close> before a digit, anywhere in the line, also
  inside a longer token.  \<open>follows key P s\<close> says that \<open>key\<close> occurs in \<open>s\<close> and that
  what comes after this occurrence satisfies \<open>P\<close>.
\<close>

fun follows :: "string \<Rightarrow> (string \<Rightarrow> bool) \<Rightarrow> string \<Rightarrow> bool" where
  "follows key P [] = (key = [] \<and> P [])"
| "follows key P (c # cs) =
     ((prefix key (c # cs) \<and> P (drop (length key) (c # cs))) \<or> follows key P cs)"

fun starts_with :: "(char \<Rightarrow> bool) \<Rightarrow> string \<Rightarrow> bool" where
  "starts_with cls [] = False"
| "starts_with cls (c # cs) = cls c"


text \<open>
  The lines on which extraction is shown to return the embedded fields.  Such a
  line is \<open>pre @ render f\<close>: the marker, a gap, \<^verbatim>\<open>n=\<close> and the size digits, a gap,
  \<^verbatim>\<open>solutions=\<close> and the solutions text, a gap, \<^verbatim>\<open>nodes=\<close> and the nodes digits, and
  the rest of the line.  The pattern matches the line when \<open>f\<close> is \<open>matchable\<close>: every
  gap starts with white space, the first and the third hold no letter \<^verbatim>\<open>n\<close>, the
  second no letter \<^verbatim>\<open>s\<close>.  The fields of \<open>f\<close> are tokens of the line, and the line
  qualifies, when \<open>f\<close> is \<open>well_formed\<close>: moreover every gap ends with white space, the
  rest of the line is empty or starts with white space, the size and the nodes are
  integers that \<^verbatim>\<open>int\<close> converts and the solutions are a decimal.
\<close>

record metrics_fields =
  gap1 :: string
  size_text :: string
  gap2 :: string
  solutions_text :: string
  gap3 :: string
  nodes_text :: string
  rest_text :: string

definition render :: "metrics_fields \<Rightarrow> string" where
  "render f =
     MARKER @ gap1 f @ ''n='' @ size_text f @ gap2 f @ ''solutions='' @ solutions_text f @
     gap3 f @ ''nodes='' @ nodes_text f @ rest_text f"

definition matchable :: "metrics_fields \<Rightarrow> bool" where
  "matchable f =
     (starts_with isspace (gap1 f) \<and> list_all (not_char CHR ''n'') (gap1 f) \<and>
      size_text f \<noteq> [] \<and> list_all isdigit (size_text f) \<and>
      starts_with isspace (gap2 f) \<and> list_all (not_char CHR ''s'') (gap2 f) \<and>
      solutions_text f \<noteq> [] \<and> list_all digit_or_dot (solutions_text f) \<and>
      starts_with isspace (gap3 f) \<and> list_all (not_char CHR ''n'') (gap3 f) \<and>
      nodes_text f \<noteq> [] \<and> list_all isdigit (nodes_text f) \<and>
      \<not> starts_with isdigit (rest_text f))"

definition ends_with_space :: "string \<Rightarrow> bool" where
  "ends_with_space s = (s \<noteq> [] \<and> isspace (last s))"

definition well_formed :: "metrics_fields \<Rightarrow> bool" where
  "well_formed f =
     (matchable f \<and>
      ends_with_space (gap1 f) \<and> ends_with_space (gap2 f) \<and> ends_with_space (gap3 f) \<and>
      (rest_text f = [] \<or> starts_with isspace (rest_text f)) \<and>
      is_decimal (solutions_text f) \<and>
      length (size_text f) \<le> INT_MAX_STR_DIGITS \<and>
      length (nodes_text f) \<le> INT_MAX_STR_DIGITS)"

definition at_token_start :: "string \<Rightarrow> bool" where
  \<comment> \<open>what stands before a token: nothing, or text that ends with white space\<close>
  "at_token_start pre = (pre = [] \<or> ends_with_space pre)"

definition marker_free :: "string \<Rightarrow> string \<Rightarrow> bool" where
  \<comment> \<open>no occurrence of the marker starts inside \<open>pre\<close> when \<open>pre\<close> stands before \<open>t\<close>\<close>
  "marker_free pre t = list_all (\<lambda>k. \<not> prefix MARKER (drop k (pre @ t))) [0..<length pre]"

section \<open>The host: file system, processes, effects\<close>

text \<open>
  What the harness does to the machine is a function on a \<open>world\<close>: the file system
  (what exists at a path, and which paths the harness may execute) and the
  history of the processes it has launched, oldest first.  What the machine
  answers is a \<open>host\<close>: the location of the repository, the environment, and the
  behaviour of the programs the harness launches, which the harness cannot know.
  A computation returns its result or the exception it raised, and the world it
  leaves.
\<close>

datatype node = Dir | File string

datatype event =
    Build "string list" path
      \<comment> \<open>\<^verbatim>\<open>subprocess.run\<close> in \<^verbatim>\<open>run\<close>: command and working directory\<close>
  | Measure "string list" path
      \<comment> \<open>\<^verbatim>\<open>subprocess.run\<close> in the worker of \<^verbatim>\<open>execute_with_metrics\<close>\<close>

record world =
  fs_nodes :: "path \<rightharpoonup> node"
  xbit :: "path set"
  history :: "event list"

type_synonym env = "string \<rightharpoonup> string"

record 'f completed =
  returncode :: int
  stdout_text :: string
  stderr_text :: string
  elapsed :: 'f
  max_rss :: int

record 'f host =
  ROOT :: path
  cpu_count :: "nat option"
  environ :: env
  which :: "string \<Rightarrow> string option"
  subprocess_run ::
    "string list \<Rightarrow> path \<Rightarrow> env option \<Rightarrow> world \<Rightarrow> (error + int) \<times> world"
    \<comment> \<open>a build command: its exit code and what it does to the world, or the error
        \<^verbatim>\<open>subprocess.run\<close> raises when the program cannot be launched
        (\<^verbatim>\<open>FileNotFoundError\<close>, \<^verbatim>\<open>PermissionError\<close>)\<close>
  mp_worker :: "string list \<Rightarrow> path \<Rightarrow> env \<Rightarrow> world \<Rightarrow> (int \<times> 'f completed option) \<times> world"
    \<comment> \<open>the measuring child process: its own exit code, and the process data if it
        put them on the queue\<close>
  os_write :: "path \<Rightarrow> string \<Rightarrow> world \<Rightarrow> error option"
    \<comment> \<open>what the operating system answers to the write of a text to the file at a
        path: the error it reports (no space left on the device, an input/output
        error), or \<open>None\<close> when it takes the text\<close>
  host_float :: "string \<Rightarrow> 'f option"
    \<comment> \<open>\<^verbatim>\<open>float(s)\<close>\<close>
  float_repr :: "'f \<Rightarrow> string"
    \<comment> \<open>\<^verbatim>\<open>repr(x)\<close> of a float, as the csv writer renders it\<close>

type_synonym ('a, 'w) io = "'w \<Rightarrow> (error + 'a) \<times> 'w"

definition ok :: "'a \<Rightarrow> ('a, 'w) io" where
  "ok x w = (Inr x, w)"

definition raise :: "error \<Rightarrow> ('a, 'w) io" where
  "raise e w = (Inl e, w)"

definition bind :: "('a, 'w) io \<Rightarrow> ('a \<Rightarrow> ('b, 'w) io) \<Rightarrow> ('b, 'w) io" where
  "bind f g w = (case f w of (Inl e, w') \<Rightarrow> (Inl e, w') | (Inr x, w') \<Rightarrow> g x w')"

definition seq :: "(unit, 'w) io \<Rightarrow> ('b, 'w) io \<Rightarrow> ('b, 'w) io" where
  "seq f g = bind f (\<lambda>_. g)"

definition when_true :: "('w \<Rightarrow> bool) \<Rightarrow> (unit, 'w) io \<Rightarrow> (unit, 'w) io" where
  \<comment> \<open>\<^verbatim>\<open>if c: f\<close>, the condition read in the current world\<close>
  "when_true c f w = (if c w then f w else (Inr (), w))"

subsection \<open>Integers and paths as text\<close>

definition digit_char :: "nat \<Rightarrow> char" where
  "digit_char d = char_of (48 + d)"

fun str_nat :: "nat \<Rightarrow> string" where
  "str_nat n = (if n < 10 then [digit_char n] else str_nat (n div 10) @ [digit_char (n mod 10)])"

declare str_nat.simps [simp del]

definition str_int :: "int \<Rightarrow> string" where
  \<comment> \<open>\<^verbatim>\<open>str(i)\<close>\<close>
  "str_int i = (if i < 0 then CHR ''-'' # str_nat (nat (- i)) else str_nat (nat i))"

fun join :: "string \<Rightarrow> string list \<Rightarrow> string" where
  "join sep [] = []"
| "join sep [x] = x"
| "join sep (x # y # ys) = x @ sep @ join sep (y # ys)"

definition path_str :: "path \<Rightarrow> string" where
  \<comment> \<open>\<^verbatim>\<open>str(p)\<close>\<close>
  "path_str p =
     (case p of
        [] \<Rightarrow> ''.''
      | r # rest \<Rightarrow> if r = ''/'' then ''/'' @ join ''/'' rest else join ''/'' (r # rest))"

definition relative_to :: "path \<Rightarrow> path \<Rightarrow> error + path" where
  \<comment> \<open>\<^verbatim>\<open>p.relative_to(other)\<close>\<close>
  "relative_to p other =
     (if prefix other p then Inr (drop (length other) p) else Inl (ValueError (path_str p)))"

subsection \<open>File system calls\<close>

definition parent :: "path \<Rightarrow> path" where
  "parent p = (if length p \<le> 1 then p else butlast p)"

definition exists :: "world \<Rightarrow> path \<Rightarrow> bool" where
  "exists w p = (fs_nodes w p \<noteq> None)"

definition is_dir :: "world \<Rightarrow> path \<Rightarrow> bool" where
  "is_dir w p = (fs_nodes w p = Some Dir)"

definition access_X_OK :: "world \<Rightarrow> path \<Rightarrow> bool" where
  \<comment> \<open>\<^verbatim>\<open>os.access(p, os.X_OK)\<close>\<close>
  "access_X_OK w p = (exists w p \<and> p \<in> xbit w)"

definition chmod_x :: "path \<Rightarrow> (unit, world) io" where
  \<comment> \<open>\<^verbatim>\<open>p.chmod(p.stat().st_mode | 0o111)\<close>\<close>
  "chmod_x p w =
     (if exists w p then (Inr (), w\<lparr>xbit := insert p (xbit w)\<rparr>)
      else (Inl (FileNotFoundError p), w))"

definition os_mkdir :: "path \<Rightarrow> (unit, world) io" where
  "os_mkdir p w =
     (case fs_nodes w (parent p) of
        None \<Rightarrow> (Inl (FileNotFoundError p), w)
      | Some (File _) \<Rightarrow> (Inl (NotADirectoryError p), w)
      | Some Dir \<Rightarrow>
          (case fs_nodes w p of
             Some _ \<Rightarrow> (Inl (FileExistsError p), w)
           | None \<Rightarrow> (Inr (), w\<lparr>fs_nodes := (fs_nodes w)(p \<mapsto> Dir)\<rparr>)))"

definition mkdir :: "bool \<Rightarrow> path \<Rightarrow> (unit, world) io" where
  \<comment> \<open>\<^verbatim>\<open>p.mkdir(exist_ok=...)\<close>, without \<^verbatim>\<open>parents\<close>\<close>
  "mkdir exist_ok p w =
     (case os_mkdir p w of
        (Inr u, w') \<Rightarrow> (Inr u, w')
      | (Inl (FileNotFoundError q), w') \<Rightarrow> (Inl (FileNotFoundError q), w')
      | (Inl e, w') \<Rightarrow> if \<not> exist_ok \<or> \<not> is_dir w p then (Inl e, w') else (Inr (), w'))"

function mkdir_parents :: "bool \<Rightarrow> path \<Rightarrow> (unit, world) io" where
  \<comment> \<open>\<^verbatim>\<open>p.mkdir(parents=True, exist_ok=...)\<close>\<close>
  "mkdir_parents exist_ok p w =
     (case os_mkdir p w of
        (Inr u, w') \<Rightarrow> (Inr u, w')
      | (Inl (FileNotFoundError q), w') \<Rightarrow>
          if parent p = p then (Inl (FileNotFoundError q), w')
          else (case mkdir_parents True (parent p) w of
                  (Inl e, w'') \<Rightarrow> (Inl e, w'')
                | (Inr u, w'') \<Rightarrow> mkdir exist_ok p w'')
      | (Inl e, w') \<Rightarrow> if \<not> exist_ok \<or> \<not> is_dir w p then (Inl e, w') else (Inr (), w'))"
  by pat_completeness auto
termination
  by (relation "measure (\<lambda>(e, p, w). length p)") (auto simp: parent_def split: if_splits)

definition open_w :: "path \<Rightarrow> (unit, world) io" where
  \<comment> \<open>\<^verbatim>\<open>p.open("w")\<close>: the file is created or truncated\<close>
  "open_w p w =
     (case fs_nodes w (parent p) of
        None \<Rightarrow> (Inl (FileNotFoundError p), w)
      | Some (File _) \<Rightarrow> (Inl (NotADirectoryError p), w)
      | Some Dir \<Rightarrow>
          (case fs_nodes w p of
             Some Dir \<Rightarrow> (Inl (IsADirectoryError p), w)
           | _ \<Rightarrow> (Inr (), w\<lparr>fs_nodes := (fs_nodes w)(p \<mapsto> File [])\<rparr>)))"

definition file_write :: "'f host \<Rightarrow> path \<Rightarrow> string \<Rightarrow> (unit, world) io" where
  \<comment> \<open>\<^verbatim>\<open>f.write(s)\<close> on the file opened at \<open>p\<close>.  The text is taken to reach the file
      when it is written (buffering is not modelled), and a write the operating
      system refuses to leave the file as it was\<close>
  "file_write h p s w =
     (case fs_nodes w p of
        Some (File c) \<Rightarrow>
          (case os_write h p s w of
             Some e \<Rightarrow> (Inl e, w)
           | None \<Rightarrow> (Inr (), w\<lparr>fs_nodes := (fs_nodes w)(p \<mapsto> File (c @ s))\<rparr>))
      | _ \<Rightarrow> (Inl (FileNotFoundError p), w))"

section \<open>Preparers\<close>

definition JOBS :: "'f host \<Rightarrow> nat" where
  \<comment> \<open>\<^verbatim>\<open>max(1, os.cpu_count() or 1)\<close>\<close>
  "JOBS h = max 1 (case cpu_count h of None \<Rightarrow> 1 | Some n \<Rightarrow> if n = 0 then 1 else n)"

definition run :: "'f host \<Rightarrow> string list \<Rightarrow> path \<Rightarrow> env option \<Rightarrow> (unit, world) io" where
  \<comment> \<open>the message printed first names \<open>cwd\<close> relative to the root, which raises when
      \<open>cwd\<close> is not below it; \<^verbatim>\<open>subprocess.run\<close> raises when it cannot launch the program;
      \<^verbatim>\<open>check=True\<close> turns a non-zero exit into an exception\<close>
  "run h cmd cwd env w =
     (if cwd \<noteq> ROOT h \<and> \<not> prefix (ROOT h) cwd then (Inl (ValueError (path_str cwd)), w)
      else
        let (r, w') = subprocess_run h cmd cwd env w;
            w'' = w'\<lparr>history := history w @ [Build cmd cwd]\<rparr>
        in case r of
             Inl e \<Rightarrow> (Inl e, w'')
           | Inr rc \<Rightarrow>
               if rc \<noteq> 0 then (Inl (CalledProcessError rc cmd None None), w'')
               else (Inr (), w''))"

definition ensure_buddy :: "'f host \<Rightarrow> (unit, world) io" where
  "ensure_buddy h =
     (let exe = ROOT h @ [''BuDDy'', ''examples'', ''queen'', ''queen''];
          lib = ROOT h @ [''BuDDy'', ''src'', ''libbdd.la''];
          buddy_dir = ROOT h @ [''BuDDy''];
          configure_script = buddy_dir @ [''configure'']
      in
        seq (when_true (\<lambda>w. exists w configure_script \<and> \<not> access_X_OK w configure_script)
               (chmod_x configure_script))
       (seq (when_true (\<lambda>w. \<not> exists w (buddy_dir @ [''config.status'']))
               (run h [''./configure''] buddy_dir None))
       (seq (when_true (\<lambda>w. \<not> exists w lib)
               (run h [''make''] buddy_dir None))
       (seq (when_true (\<lambda>w. \<not> exists w exe)
               (run h [''make'', ''-C'', ''examples/queen'', ''queen''] buddy_dir None))
            (run h [''make'', ''-C'', ''examples/queen'', ''queen''] buddy_dir None)))))"

definition ensure_sylvan :: "'f host \<Rightarrow> (unit, world) io" where
  "ensure_sylvan h w =
     (let binary = ROOT h @ [''sylvan'', ''build'', ''examples'', ''nqueens_fast'']
      in
        if exists w binary then (Inr (), w)
        else
          seq (run h [''cmake'', ''-S'', ''sylvan'', ''-B'', ''sylvan/build'',
                      ''-DSYLVAN_STATS=ON'', ''-DBUILD_SHARED_LIBS=OFF'',
                      ''-DCMAKE_BUILD_TYPE=Release''] (ROOT h) None)
              (run h [''cmake'', ''--build'', ''sylvan/build'', ''--target'', ''nqueens_fast'',
                      ''-j'' @ str_nat (JOBS h)] (ROOT h) None) w)"

definition ensure_cudd :: "'f host \<Rightarrow> (unit, world) io" where
  "ensure_cudd h =
     (let cudd_dir = ROOT h @ [''cudd''];
          lib = cudd_dir @ [''cudd'', ''.libs'', ''libcudd.a''];
          configure_script = cudd_dir @ [''configure''];
          exe = ROOT h @ [''cudd'', ''bin'', ''nqueens_bdd'']
      in
        seq (when_true (\<lambda>w. \<not> exists w lib)
              (seq (when_true (\<lambda>w. exists w configure_script \<and> \<not> access_X_OK w configure_script)
                      (chmod_x configure_script))
              (seq (when_true (\<lambda>w. \<not> exists w (cudd_dir @ [''config.status'']))
                      (run h [''./configure''] cudd_dir None))
                   (run h [''make'', ''-j'' @ str_nat (JOBS h), ''ACLOCAL=true'', ''AUTOMAKE=true'',
                           ''AUTOCONF=true'', ''AUTOHEADER=true''] cudd_dir None))))
            (when_true (\<lambda>w. \<not> exists w exe)
              (seq (mkdir_parents True (ROOT h @ [''cudd'', ''bin'']))
                   (run h [''gcc'', ''-O3'', ''-I./cudd'', ''-I./cudd/cudd'', ''-I./cudd/mtr'',
                           ''-I./cudd/st'', ''-I./cudd/util'', ''-I./cudd/epd'',
                           ''-o'', ''cudd/bin/nqueens_bdd'', ''cudd/examples/nqueens_bdd.c'',
                           ''cudd/cudd/.libs/libcudd.a'', ''-lm''] (ROOT h) None))))"

definition ensure_jdd :: "'f host \<Rightarrow> (unit, world) io" where
  "ensure_jdd h w =
     (let classes_flag = ROOT h @ [''jdd'', ''build'', ''classes'', ''java'', ''main'', ''jdd'',
                                   ''examples'', ''BDDQueens.class''];
          gradlew = ROOT h @ [''jdd'', ''gradlew'']
      in
        if exists w classes_flag then (Inr (), w)
        else
          seq (when_true (\<lambda>w. exists w gradlew \<and> \<not> access_X_OK w gradlew) (chmod_x gradlew))
              (run h [''./gradlew'', ''--no-daemon'', ''classes''] (ROOT h @ [''jdd'']) None) w)"

definition ensure_jsylvan :: "'f host \<Rightarrow> (unit, world) io" where
  "ensure_jsylvan h =
     (let env_with_pkg =
            (case which h ''pkg-config'' of
               None \<Rightarrow> environ h
             | Some pkg_config \<Rightarrow>
                 if pkg_config = [] then environ h
                 else (environ h)(''PKG_CONFIG'' \<mapsto> pkg_config,
                                  ''PKG_CONFIG_EXECUTABLE'' \<mapsto> pkg_config));
          native_lib = ROOT h @ [''jsylvan'', ''src'', ''main'', ''resources'', ''linux-x64'',
                                 ''libsylvan-java.so''];
          build_script = ROOT h @ [''jsylvan'', ''src'', ''main'', ''c'', ''sylvan-java'',
                                   ''build-sylvan.sh''];
          jar = ROOT h @ [''jsylvan'', ''target'', ''sylvan-1.0.0-SNAPSHOT.jar'']
      in
        seq (when_true (\<lambda>w. \<not> exists w native_lib)
              (seq (when_true (\<lambda>w. exists w build_script \<and> \<not> access_X_OK w build_script)
                      (chmod_x build_script))
                   (run h [''./src/main/c/sylvan-java/build-sylvan.sh'',
                           ''https://github.com/trolando/sylvan.git'', ''v1.4.1'']
                      (ROOT h @ [''jsylvan'']) (Some env_with_pkg))))
            (when_true (\<lambda>w. \<not> exists w jar)
              (run h [''mvn'', ''-q'', ''-DskipTests'', ''package''] (ROOT h @ [''jsylvan'']) None)))"

section \<open>Running one trial\<close>

record implementation =
  name :: string
  language :: string
  preparer :: "(unit, world) io option"
  command_builder :: "int \<Rightarrow> int \<Rightarrow> string list"
  workdir :: path
  extra_env :: env

definition Implementation ::
  "'f host \<Rightarrow> string \<Rightarrow> string \<Rightarrow> (unit, world) io option \<Rightarrow> (int \<Rightarrow> int \<Rightarrow> string list) \<Rightarrow>
   path option \<Rightarrow> env option \<Rightarrow> implementation" where
  \<comment> \<open>\<^verbatim>\<open>__init__\<close>: \<^verbatim>\<open>workdir or ROOT\<close>, \<^verbatim>\<open>extra_env or {}\<close>\<close>
  "Implementation h n l p cb wd ee =
     \<lparr>name = n, language = l, preparer = p, command_builder = cb,
      workdir = (case wd of None \<Rightarrow> ROOT h | Some d \<Rightarrow> d),
      extra_env = (case ee of None \<Rightarrow> Map.empty | Some e \<Rightarrow> e)\<rparr>"

definition ensure_ready :: "implementation \<Rightarrow> (unit, world) io" where
  "ensure_ready impl = (case preparer impl of None \<Rightarrow> ok () | Some p \<Rightarrow> p)"

definition command_for :: "implementation \<Rightarrow> int \<Rightarrow> int \<Rightarrow> string list" where
  "command_for impl size' workers = command_builder impl size' workers"

definition base_env :: "'f host \<Rightarrow> implementation \<Rightarrow> env" where
  "base_env h impl = environ h ++ extra_env impl"

definition execute_with_metrics ::
  "'f host \<Rightarrow> string list \<Rightarrow> path \<Rightarrow> env \<Rightarrow> ('f completed \<times> string list, world) io" where
  \<comment> \<open>the result is the dictionary the worker put on the queue: the process data
      and \<^verbatim>\<open>cmd\<close>\<close>
  "execute_with_metrics h cmd cwd env w =
     (let ((exitcode, queue), w') = mp_worker h cmd cwd env w;
          w'' = w'\<lparr>history := history w @ [Measure cmd cwd]\<rparr>
      in
        if exitcode \<noteq> 0 then (Inl (RuntimeError MeasurementHelperFailed), w'')
        else
          (case queue of
             None \<Rightarrow> (Inl (RuntimeError MeasurementHelperNoData), w'')
           | Some r \<Rightarrow> (Inr (r, cmd), w'')))"

datatype 'f cell = StrCell string | IntCell int | FloatCell 'f

type_synonym 'f row = "(string \<times> 'f cell) list"
  \<comment> \<open>a dictionary, in insertion order\<close>

definition run_implementation ::
  "'f host \<Rightarrow> implementation \<Rightarrow> int \<Rightarrow> int \<Rightarrow> ('f row, world) io" where
  "run_implementation h impl size' workers =
     (let cmd = command_for impl size' workers;
          env = base_env h impl
      in
        bind (execute_with_metrics h cmd (workdir impl) env)
          (\<lambda>(result, result_cmd).
             if returncode result \<noteq> 0
             then raise (CalledProcessError (returncode result) result_cmd
                          (Some (stdout_text result)) (Some (stderr_text result)))
             else
               (case parse_metrics (host_float h) (stdout_text result) of
                  Inl e \<Rightarrow> raise e
                | Inr (measured_size, solutions, nodes) \<Rightarrow>
                    if measured_size \<noteq> size'
                    then raise (RuntimeError (ReportedSize (name impl) measured_size size'))
                    else
                      ok [(''implementation'', StrCell (name impl)),
                          (''language'', StrCell (language impl)),
                          (''size'', IntCell size'),
                          (''time_sec'', FloatCell (elapsed result)),
                          (''max_rss_kb'', IntCell (max_rss result)),
                          (''nodes'', IntCell nodes),
                          (''solutions'', FloatCell solutions)])))"

section \<open>The result table\<close>

text \<open>
  \<^verbatim>\<open>csv.DictWriter\<close> with the default dialect: a row is the values of the field names
  in order, the empty text standing for a missing key; a dictionary with a key that
  is not a field name raises \<^verbatim>\<open>ValueError\<close> before anything of the row is written.  A
  field is quoted when it holds the delimiter, the quote character or a character
  of the line terminator, the quote character being doubled; the fields are joined
  by commas and the record ends with carriage return and line feed.
\<close>

definition fieldnames :: "string list" where
  "fieldnames =
     [''implementation'', ''language'', ''size'', ''time_sec'', ''max_rss_kb'', ''nodes'',
      ''solutions'']"

definition cell_text :: "'f host \<Rightarrow> 'f cell option \<Rightarrow> string" where
  "cell_text h c =
     (case c of
        None \<Rightarrow> []
      | Some (StrCell s) \<Rightarrow> s
      | Some (IntCell i) \<Rightarrow> str_int i
      | Some (FloatCell x) \<Rightarrow> float_repr h x)"

definition special :: "char \<Rightarrow> bool" where
  "special c = (c = CHR '','' \<or> c = CHR 0x22 \<or> c = CHR 0x0D \<or> c = CHR 0x0A)"

definition double_quotes :: "string \<Rightarrow> string" where
  "double_quotes s = concat (map (\<lambda>c. if c = CHR 0x22 then [c, c] else [c]) s)"

definition quote_field :: "string \<Rightarrow> string" where
  "quote_field s =
     (if list_ex special s then [CHR 0x22] @ double_quotes s @ [CHR 0x22] else s)"

definition csv_record :: "string list \<Rightarrow> string" where
  "csv_record cols = join '','' (map quote_field cols) @ [CHR 0x0D, CHR 0x0A]"

definition dict_to_list :: "'f row \<Rightarrow> error + 'f cell option list" where
  "dict_to_list rowdict =
     (if list_ex (\<lambda>k. k \<notin> set fieldnames) (map fst rowdict)
      then Inl (ValueError ''dict contains fields not in fieldnames'')
      else Inr (map (map_of rowdict) fieldnames))"

definition writeheader :: "'f host \<Rightarrow> path \<Rightarrow> (unit, world) io" where
  "writeheader h p = file_write h p (csv_record fieldnames)"

definition writerow :: "'f host \<Rightarrow> path \<Rightarrow> 'f row \<Rightarrow> (unit, world) io" where
  "writerow h p rowdict =
     (case dict_to_list rowdict of
        Inl e \<Rightarrow> raise e
      | Inr cells \<Rightarrow> file_write h p (csv_record (map (cell_text h) cells)))"

fun write_rows :: "'f host \<Rightarrow> path \<Rightarrow> 'f row list \<Rightarrow> (unit, world) io" where
  "write_rows h p [] = ok ()"
| "write_rows h p (r # rows) = seq (writerow h p r) (write_rows h p rows)"

definition RESULTS_DIR :: "'f host \<Rightarrow> path" where
  "RESULTS_DIR h = ROOT h @ [''results'']"

definition write_results :: "'f host \<Rightarrow> 'f row list \<Rightarrow> path \<Rightarrow> (unit, world) io" where
  \<comment> \<open>the file is closed when the \<^verbatim>\<open>with\<close> block is left, by an exception too: what
      was written stays; the closing message names the path relative to the root\<close>
  "write_results h rows output_path =
     seq (mkdir True (RESULTS_DIR h))
    (seq (open_w output_path)
    (seq (writeheader h output_path)
    (seq (write_rows h output_path rows)
         (\<lambda>w. case relative_to output_path (ROOT h) of
                 Inl e \<Rightarrow> (Inl e, w)
               | Inr _ \<Rightarrow> (Inr (), w)))))"

text \<open>
  The text of the table for a list of rows, as the writer lays it out; a row is
  well keyed when all its keys are field names.
\<close>

definition row_line :: "'f host \<Rightarrow> 'f row \<Rightarrow> string" where
  "row_line h r = csv_record (map (cell_text h) (map (map_of r) fieldnames))"

definition table_text :: "'f host \<Rightarrow> 'f row list \<Rightarrow> string" where
  "table_text h rows = csv_record fieldnames @ concat (map (row_line h) rows)"

definition well_keyed :: "'f row \<Rightarrow> bool" where
  "well_keyed r = list_all (\<lambda>k. k \<in> set fieldnames) (map fst r)"

section \<open>Reading the table back\<close>

text \<open>
  \<^verbatim>\<open>read_rows\<close> of \<^verbatim>\<open>plot_nqueens_results.py\<close> opens the table in text mode with
  universal newlines, so every carriage return, alone or before a line feed,
  reaches the reader as a line feed, and hands the lines, each with its line feed,
  to \<^verbatim>\<open>csv.DictReader\<close>.  The reader is the state machine of the \<^verbatim>\<open>csv\<close> module for
  the default dialect; the input \<open>None\<close> is the end-of-line mark it sees after the
  last character of each line.  The reader's limit on the size of a field and, in
  this part, the interpreter's limit on the digits of an integer are not modelled.
\<close>

fun universal_newlines :: "string \<Rightarrow> string" where
  "universal_newlines [] = []"
| "universal_newlines [c] = (if c = CHR 0x0D then [CHR 0x0A] else [c])"
| "universal_newlines (c # d # cs) =
     (if c = CHR 0x0D \<and> d = CHR 0x0A then CHR 0x0A # universal_newlines cs
      else if c = CHR 0x0D then CHR 0x0A # universal_newlines (d # cs)
      else c # universal_newlines (d # cs))"

fun readlines_from :: "string \<Rightarrow> string \<Rightarrow> string list" where
  "readlines_from cur [] = (if cur = [] then [] else [cur])"
| "readlines_from cur (c # cs) =
     (if c = CHR 0x0A then (cur @ [c]) # readlines_from [] cs
      else readlines_from (cur @ [c]) cs)"

definition readlines :: "string \<Rightarrow> string list" where
  "readlines s = readlines_from [] s"

datatype parse_state =
  START_RECORD | START_FIELD | IN_FIELD | IN_QUOTED_FIELD | QUOTE_IN_QUOTED_FIELD | EAT_CRNL

record reader =
  rstate :: parse_state
  rfield :: string
  rfields :: "string list"

definition parse_reset :: reader where
  "parse_reset = \<lparr>rstate = START_RECORD, rfield = [], rfields = []\<rparr>"

definition save_field :: "reader \<Rightarrow> reader" where
  "save_field r = r\<lparr>rfields := rfields r @ [rfield r], rfield := []\<rparr>"

definition add_char :: "char \<Rightarrow> reader \<Rightarrow> reader" where
  "add_char c r = r\<lparr>rfield := rfield r @ [c]\<rparr>"

definition is_newline :: "char \<Rightarrow> bool" where
  "is_newline c = (c = CHR 0x0A \<or> c = CHR 0x0D)"

definition start_field :: "reader \<Rightarrow> char option \<Rightarrow> error + reader" where
  "start_field r x =
     (case x of
        None \<Rightarrow> Inr ((save_field r)\<lparr>rstate := START_RECORD\<rparr>)
      | Some c \<Rightarrow>
          if is_newline c then Inr ((save_field r)\<lparr>rstate := EAT_CRNL\<rparr>)
          else if c = CHR 0x22 then Inr (r\<lparr>rstate := IN_QUOTED_FIELD\<rparr>)
          else if c = CHR '','' then Inr ((save_field r)\<lparr>rstate := START_FIELD\<rparr>)
          else Inr ((add_char c r)\<lparr>rstate := IN_FIELD\<rparr>))"

definition process_char :: "reader \<Rightarrow> char option \<Rightarrow> error + reader" where
  "process_char r x =
     (case rstate r of
        START_RECORD \<Rightarrow>
          (case x of
             None \<Rightarrow> Inr r
           | Some c \<Rightarrow>
               if is_newline c then Inr (r\<lparr>rstate := EAT_CRNL\<rparr>) else start_field r x)
      | START_FIELD \<Rightarrow> start_field r x
      | IN_FIELD \<Rightarrow>
          (case x of
             None \<Rightarrow> Inr ((save_field r)\<lparr>rstate := START_RECORD\<rparr>)
           | Some c \<Rightarrow>
               if is_newline c then Inr ((save_field r)\<lparr>rstate := EAT_CRNL\<rparr>)
               else if c = CHR '','' then Inr ((save_field r)\<lparr>rstate := START_FIELD\<rparr>)
               else Inr (add_char c r))
      | IN_QUOTED_FIELD \<Rightarrow>
          (case x of
             None \<Rightarrow> Inr r
           | Some c \<Rightarrow>
               if c = CHR 0x22 then Inr (r\<lparr>rstate := QUOTE_IN_QUOTED_FIELD\<rparr>)
               else Inr (add_char c r))
      | QUOTE_IN_QUOTED_FIELD \<Rightarrow>
          (case x of
             None \<Rightarrow> Inr ((save_field r)\<lparr>rstate := START_RECORD\<rparr>)
           | Some c \<Rightarrow>
               if c = CHR 0x22 then Inr ((add_char c r)\<lparr>rstate := IN_QUOTED_FIELD\<rparr>)
               else if c = CHR '','' then Inr ((save_field r)\<lparr>rstate := START_FIELD\<rparr>)
               else if is_newline c then Inr ((save_field r)\<lparr>rstate := EAT_CRNL\<rparr>)
               else Inr ((add_char c r)\<lparr>rstate := IN_FIELD\<rparr>))
      | EAT_CRNL \<Rightarrow>
          (case x of
             None \<Rightarrow> Inr (r\<lparr>rstate := START_RECORD\<rparr>)
           | Some c \<Rightarrow> if is_newline c then Inr r else Inl CsvError))"

fun feed :: "reader \<Rightarrow> char option list \<Rightarrow> error + reader" where
  "feed r [] = Inr r"
| "feed r (x # xs) = (case process_char r x of Inl e \<Rightarrow> Inl e | Inr r' \<Rightarrow> feed r' xs)"

fun csv_rows :: "reader \<Rightarrow> string list \<Rightarrow> error + string list list" where
  \<comment> \<open>the records the reader yields from the lines; at the end of the input a record
      in progress is yielded as it stands\<close>
  "csv_rows r [] =
     (if rfield r \<noteq> [] \<or> rstate r = IN_QUOTED_FIELD then Inr [rfields (save_field r)]
      else Inr [])"
| "csv_rows r (l # ls) =
     (case feed r (map Some l @ [None]) of
        Inl e \<Rightarrow> Inl e
      | Inr r' \<Rightarrow>
          if rstate r' \<noteq> START_RECORD then csv_rows r' ls
          else (case csv_rows parse_reset ls of
                  Inl e \<Rightarrow> Inl e
                | Inr rs \<Rightarrow> Inr (rfields r' # rs)))"

datatype 'f pyvalue = VStr string | VInt int | VFloat 'f | VNone | VList "string list"

type_synonym 'f pydict = "(string option \<times> 'f pyvalue) list"
  \<comment> \<open>the key \<open>None\<close> is the \<^verbatim>\<open>restkey\<close> of \<^verbatim>\<open>DictReader\<close>\<close>

definition to_dict :: "string list \<Rightarrow> string list \<Rightarrow> 'f pydict" where
  \<comment> \<open>\<^verbatim>\<open>dict(zip(fieldnames, row))\<close>, then the surplus values or the missing keys\<close>
  "to_dict names r =
     (let d = foldl (\<lambda>d (k, v). AList.update (Some k) (VStr v) d) [] (zip names r)
      in if length names < length r then AList.update None (VList (drop (length names) r)) d
         else foldl (\<lambda>d k. AList.update (Some k) VNone d) d (drop (length r) names))"

definition dict_reader :: "string list list \<Rightarrow> 'f pydict list" where
  \<comment> \<open>the first record names the fields; empty records are skipped\<close>
  "dict_reader records =
     (case records of
        [] \<Rightarrow> []
      | names # rs \<Rightarrow> map (to_dict names) (filter (\<lambda>r. r \<noteq> []) rs))"

definition digits_ok :: "string \<Rightarrow> bool" where
  \<comment> \<open>decimal digits, single underscores between them allowed\<close>
  "digits_ok s =
     (s \<noteq> [] \<and> isdigit (hd s) \<and> isdigit (last s) \<and>
      list_all (\<lambda>c. isdigit c \<or> c = CHR ''_'') s \<and>
      \<not> list_ex (\<lambda>(a, b). a = CHR ''_'' \<and> b = CHR ''_'') (zip s (tl s)))"

definition int_space :: "char \<Rightarrow> bool" where
  \<comment> \<open>the white space \<^verbatim>\<open>int\<close> skips around a number: that of \<^verbatim>\<open>str.isspace\<close> without the
      separators U+001C to U+001F\<close>
  "int_space c =
     (let n = (of_char c :: nat) in (9 \<le> n \<and> n \<le> 13) \<or> n = 32 \<or> n = 133 \<or> n = 160)"

definition int_of_text :: "string \<Rightarrow> int option" where
  \<comment> \<open>\<^verbatim>\<open>int(s)\<close> on text: \<open>None\<close> stands for \<^verbatim>\<open>ValueError\<close>\<close>
  "int_of_text s =
     (let t = rev (dropWhile int_space (rev (dropWhile int_space s)));
          neg = (t \<noteq> [] \<and> hd t = CHR ''-'');
          body = (if t \<noteq> [] \<and> (hd t = CHR ''-'' \<or> hd t = CHR ''+'') then tl t else t)
      in if digits_ok body
         then Some ((if neg then - 1 else 1) * decimal_value (filter (\<lambda>c. c \<noteq> CHR ''_'') body))
         else None)"

definition convert_int :: "string \<Rightarrow> 'f pydict \<Rightarrow> error + 'f pydict" where
  \<comment> \<open>\<^verbatim>\<open>row[key] = int(row[key])\<close>\<close>
  "convert_int key d =
     (case map_of d (Some key) of
        None \<Rightarrow> Inl (KeyError key)
      | Some (VStr s) \<Rightarrow>
          (case int_of_text s of
             None \<Rightarrow> Inl (ValueError s)
           | Some i \<Rightarrow> Inr (AList.update (Some key) (VInt i) d))
      | Some (VInt i) \<Rightarrow> Inr d
      | Some _ \<Rightarrow> Inl TypeError)"

definition convert_float :: "'f host \<Rightarrow> string \<Rightarrow> 'f pydict \<Rightarrow> error + 'f pydict" where
  \<comment> \<open>\<^verbatim>\<open>row[key] = float(row[key])\<close>\<close>
  "convert_float h key d =
     (case map_of d (Some key) of
        None \<Rightarrow> Inl (KeyError key)
      | Some (VStr s) \<Rightarrow>
          (case host_float h s of
             None \<Rightarrow> Inl (ValueError s)
           | Some x \<Rightarrow> Inr (AList.update (Some key) (VFloat x) d))
      | Some (VFloat x) \<Rightarrow> Inr d
      | Some _ \<Rightarrow> Inl TypeError)"

definition and_then :: "error + 'a \<Rightarrow> ('a \<Rightarrow> error + 'b) \<Rightarrow> error + 'b" where
  "and_then x f = (case x of Inl e \<Rightarrow> Inl e | Inr v \<Rightarrow> f v)"

definition convert_row :: "'f host \<Rightarrow> 'f pydict \<Rightarrow> error + 'f pydict" where
  "convert_row h d =
     and_then (convert_int ''size'' d) (\<lambda>d.
     and_then (convert_float h ''time_sec'' d) (\<lambda>d.
     and_then (convert_int ''max_rss_kb'' d) (\<lambda>d.
     and_then (convert_int ''nodes'' d) (\<lambda>d.
     convert_float h ''solutions'' d))))"

fun convert_rows :: "'f host \<Rightarrow> 'f pydict list \<Rightarrow> error + 'f pydict list" where
  "convert_rows h [] = Inr []"
| "convert_rows h (d # ds) =
     and_then (convert_row h d) (\<lambda>d'. and_then (convert_rows h ds) (\<lambda>ds'. Inr (d' # ds')))"

definition read_rows :: "'f host \<Rightarrow> path \<Rightarrow> world \<Rightarrow> error + 'f pydict list" where
  "read_rows h csv_path w =
     (case fs_nodes w csv_path of
        None \<Rightarrow> Inl (FileNotFoundError csv_path)
      | Some Dir \<Rightarrow> Inl (IsADirectoryError csv_path)
      | Some (File c) \<Rightarrow>
          and_then (csv_rows parse_reset (readlines (universal_newlines c)))
            (\<lambda>records. convert_rows h (dict_reader records)))"

text \<open>
  A Result Record of the specification, the dictionary that carries it, as
  \<^verbatim>\<open>run_implementation\<close> builds it, and what it reads back as: the integers and floats
  as written, the texts with their line breaks turned into line feeds.
\<close>

record 'f result_record =
  rr_implementation :: string
  rr_language :: string
  rr_size :: int
  rr_time_sec :: 'f
  rr_max_rss_kb :: int
  rr_nodes :: int
  rr_solutions :: 'f

definition as_row :: "'f result_record \<Rightarrow> 'f row" where
  "as_row r =
     [(''implementation'', StrCell (rr_implementation r)),
      (''language'', StrCell (rr_language r)),
      (''size'', IntCell (rr_size r)),
      (''time_sec'', FloatCell (rr_time_sec r)),
      (''max_rss_kb'', IntCell (rr_max_rss_kb r)),
      (''nodes'', IntCell (rr_nodes r)),
      (''solutions'', FloatCell (rr_solutions r))]"

definition read_back :: "'f result_record \<Rightarrow> 'f pydict" where
  "read_back r =
     [(Some ''implementation'', VStr (universal_newlines (rr_implementation r))),
      (Some ''language'', VStr (universal_newlines (rr_language r))),
      (Some ''size'', VInt (rr_size r)),
      (Some ''time_sec'', VFloat (rr_time_sec r)),
      (Some ''max_rss_kb'', VInt (rr_max_rss_kb r)),
      (Some ''nodes'', VInt (rr_nodes r)),
      (Some ''solutions'', VFloat (rr_solutions r))]"

definition float_round_trip :: "'f host \<Rightarrow> 'f \<Rightarrow> bool" where
  \<comment> \<open>\<^verbatim>\<open>float(repr(x)) == x\<close>, and \<^verbatim>\<open>repr(x)\<close> holds no comma, quote or line break\<close>
  "float_round_trip h x =
     (host_float h (float_repr h x) = Some x \<and> \<not> list_ex special (float_repr h x))"

definition floats_round_trip :: "'f host \<Rightarrow> 'f result_record \<Rightarrow> bool" where
  "floats_round_trip h r =
     (float_round_trip h (rr_time_sec r) \<and> float_round_trip h (rr_solutions r))"

text \<open>
  The reader seen as one pass over the characters of the whole text, the
  end-of-line mark following every line feed: what the proofs about it work with.
\<close>

fun eol_marks :: "string \<Rightarrow> char option list" where
  "eol_marks [] = []"
| "eol_marks (c # cs) =
     (if c = CHR 0x0A then Some c # None # eol_marks cs else Some c # eol_marks cs)"

fun records_of :: "reader \<Rightarrow> char option list \<Rightarrow> error + string list list" where
  "records_of r [] =
     (if rfield r \<noteq> [] \<or> rstate r = IN_QUOTED_FIELD then Inr [rfields (save_field r)]
      else Inr [])"
| "records_of r (x # xs) =
     (case process_char r x of
        Inl e \<Rightarrow> Inl e
      | Inr r' \<Rightarrow>
          if x = None \<and> rstate r' = START_RECORD
          then (case records_of parse_reset xs of
                  Inl e \<Rightarrow> Inl e
                | Inr rs \<Rightarrow> Inr (rfields r' # rs))
          else records_of r' xs)"

section \<open>The sweep\<close>

record args =
  arg_sizes :: "int list"
  arg_workers :: int
  arg_output :: path

fun prepare_all :: "implementation list \<Rightarrow> (unit, world) io" where
  "prepare_all [] = ok ()"
| "prepare_all (impl # impls) = seq (ensure_ready impl) (prepare_all impls)"

fun run_size ::
  "'f host \<Rightarrow> implementation list \<Rightarrow> int \<Rightarrow> int \<Rightarrow> 'f row list \<Rightarrow> ('f row list, world) io" where
  \<comment> \<open>the inner loop: \<open>rows\<close> is the list appended to\<close>
  "run_size h [] size' workers rows = ok rows"
| "run_size h (impl # impls) size' workers rows =
     bind (run_implementation h impl size' workers)
       (\<lambda>r. run_size h impls size' workers (rows @ [r]))"

fun run_sizes ::
  "'f host \<Rightarrow> implementation list \<Rightarrow> int list \<Rightarrow> int \<Rightarrow> 'f row list \<Rightarrow> ('f row list, world) io" where
  \<comment> \<open>the outer loop\<close>
  "run_sizes h impls [] workers rows = ok rows"
| "run_sizes h impls (size' # sizes) workers rows =
     bind (run_size h impls size' workers rows)
       (\<lambda>rows'. run_sizes h impls sizes workers rows')"

definition sweep :: "'f host \<Rightarrow> implementation list \<Rightarrow> args \<Rightarrow> (unit, world) io" where
  \<comment> \<open>the body of \<^verbatim>\<open>main\<close> after the list of implementations\<close>
  "sweep h impls a =
     seq (prepare_all impls)
       (bind (run_sizes h impls (arg_sizes a) (arg_workers a) [])
          (\<lambda>rows. write_results h rows (arg_output a)))"

text \<open>
  The trials as one loop over the (size, implementation) pairs, in the order the
  specification gives them: \<open>List.product sizes impls\<close> lists the pairs with the
  sizes outermost.
\<close>

fun run_trials ::
  "'f host \<Rightarrow> (int \<times> implementation) list \<Rightarrow> int \<Rightarrow> 'f row list \<Rightarrow> ('f row list, world) io" where
  "run_trials h [] workers rows = ok rows"
| "run_trials h ((size', impl) # trials) workers rows =
     bind (run_implementation h impl size' workers)
       (\<lambda>r. run_trials h trials workers (rows @ [r]))"

definition trial_event :: "int \<Rightarrow> int \<times> implementation \<Rightarrow> event" where
  \<comment> \<open>the process a trial launches\<close>
  "trial_event workers t = Measure (command_for (snd t) (fst t) workers) (workdir (snd t))"

definition trial_key :: "int \<times> implementation \<Rightarrow> 'f cell option \<times> 'f cell option" where
  "trial_key t = (Some (StrCell (name (snd t))), Some (IntCell (fst t)))"

definition row_key :: "'f row \<Rightarrow> 'f cell option \<times> 'f cell option" where
  "row_key r = (map_of r ''implementation'', map_of r ''size'')"

definition ld_library_path :: "'f host \<Rightarrow> path \<Rightarrow> env" where
  \<comment> \<open>\<^verbatim>\<open>{"LD_LIBRARY_PATH": f"{dir}:{os.environ.get('LD_LIBRARY_PATH','')}"}\<close>\<close>
  "ld_library_path h dir =
     [''LD_LIBRARY_PATH'' \<mapsto>
        path_str dir @ '':'' @
        (case environ h ''LD_LIBRARY_PATH'' of None \<Rightarrow> [] | Some v \<Rightarrow> v)]"

definition implementations :: "'f host \<Rightarrow> implementation list" where
  "implementations h =
     [Implementation h ''BuDDy'' ''C'' (Some (ensure_buddy h))
        (\<lambda>size' _. [path_str (ROOT h @ [''BuDDy'', ''examples'', ''queen'', ''queen'']),
                     str_int size'])
        (Some (ROOT h)) (Some (ld_library_path h (ROOT h @ [''BuDDy'', ''src'', ''.libs'']))),
      Implementation h ''Sylvan'' ''C'' (Some (ensure_sylvan h))
        (\<lambda>size' workers. [path_str (ROOT h @ [''sylvan'', ''build'', ''examples'', ''nqueens_fast'']),
                           ''-w'', str_int workers, str_int size'])
        (Some (ROOT h)) (Some (ld_library_path h (ROOT h @ [''sylvan'', ''build'', ''src'']))),
      Implementation h ''CUDD'' ''C'' (Some (ensure_cudd h))
        (\<lambda>size' _. [path_str (ROOT h @ [''cudd'', ''bin'', ''nqueens_bdd'']), str_int size'])
        None None,
      Implementation h ''JDD'' ''Java'' (Some (ensure_jdd h))
        (\<lambda>size' _. [''java'', ''-cp'', ''build/classes/java/main'', ''jdd.examples.BDDQueens'',
                     str_int size'])
        (Some (ROOT h @ [''jdd''])) None,
      Implementation h ''JSylvan'' ''Java'' (Some (ensure_jsylvan h))
        (\<lambda>size' workers. [''java'', ''-cp'', ''target/sylvan-1.0.0-SNAPSHOT.jar'',
                           ''jsylvan.examples.JSylvanNQueens'', ''-w'', str_int workers,
                           str_int size'])
        (Some (ROOT h @ [''jsylvan''])) None]"

definition main :: "'f host \<Rightarrow> args \<Rightarrow> (unit, world) io" where
  "main h a = sweep h (implementations h) a"

section \<open>An example host\<close>

text \<open>
  A host on which the statements below are instantiated: floats are kept as their
  text, every build command succeeds and changes nothing, every write to a file is
  taken, and every measured program prints the metrics line for the size it is
  given as its last argument.
\<close>

definition example_completed :: "string list \<Rightarrow> string completed" where
  "example_completed cmd =
     \<lparr>returncode = 0,
      stdout_text = ''NQUEENS_METRICS n='' @ last cmd @ '' solutions=2 nodes=10'' @ [CHR 0x0A],
      stderr_text = [], elapsed = ''0.25'', max_rss = 1024\<rparr>"

definition example_host :: "string host" where
  "example_host =
     \<lparr>ROOT = [''/'', ''repo''], cpu_count = Some 4, environ = Map.empty,
      which = (\<lambda>_. None),
      subprocess_run = (\<lambda>cmd cwd env w. (Inr 0, w)),
      mp_worker = (\<lambda>cmd cwd env w. ((0, Some (example_completed cmd)), w)),
      os_write = (\<lambda>p s w. None),
      host_float = (\<lambda>s. Some s), float_repr = (\<lambda>x. x)\<rparr>"

definition example_world :: world where
  "example_world =
     \<lparr>fs_nodes = [[''/''] \<mapsto> Dir, [''/'', ''repo''] \<mapsto> Dir], xbit = {}, history = []\<rparr>"

definition example_impl :: "string \<Rightarrow> implementation" where
  "example_impl n =
     Implementation example_host n ''C'' None (\<lambda>size' _. [n, str_int size']) None None"

definition built_files :: "path list" where
  "built_files =
     map (\<lambda>p. [''/'', ''repo''] @ p)
       [[''BuDDy'', ''configure''], [''BuDDy'', ''config.status''],
        [''BuDDy'', ''src'', ''libbdd.la''], [''BuDDy'', ''examples'', ''queen'', ''queen''],
        [''sylvan'', ''build'', ''examples'', ''nqueens_fast''],
        [''cudd'', ''configure''], [''cudd'', ''config.status''],
        [''cudd'', ''cudd'', ''.libs'', ''libcudd.a''], [''cudd'', ''bin'', ''nqueens_bdd''],
        [''jdd'', ''build'', ''classes'', ''java'', ''main'', ''jdd'', ''examples'',
         ''BDDQueens.class''],
        [''jsylvan'', ''src'', ''main'', ''resources'', ''linux-x64'', ''libsylvan-java.so''],
        [''jsylvan'', ''target'', ''sylvan-1.0.0-SNAPSHOT.jar'']]"

definition making_host :: "string host" where
  \<comment> \<open>as the example host, but every build command leaves every artifact in place\<close>
  "making_host =
     example_host\<lparr>subprocess_run :=
       (\<lambda>cmd cwd env w.
          (Inr 0, w\<lparr>fs_nodes :=
             (\<lambda>p. if p \<in> set built_files then Some (File []) else fs_nodes w p)\<rparr>))\<rparr>"


definition world_with :: "path list \<Rightarrow> world" where
  \<comment> \<open>the example world, with an empty, executable file at each of the paths\<close>
  "world_with ps =
     \<lparr>fs_nodes = (\<lambda>p. if p \<in> set ps then Some (File []) else fs_nodes example_world p),
      xbit = set ps, history = []\<rparr>"

definition built_world :: world where
  \<comment> \<open>every artifact of every implementation is in place\<close>
  "built_world = world_with built_files"

definition example_row :: "string \<Rightarrow> int \<Rightarrow> string row" where
  \<comment> \<open>a row as \<^verbatim>\<open>run_implementation\<close> builds it\<close>
  "example_row n size' =
     [(''implementation'', StrCell n), (''language'', StrCell ''C''), (''size'', IntCell size'),
      (''time_sec'', FloatCell ''0.25''), (''max_rss_kb'', IntCell 1024), (''nodes'', IntCell 10),
      (''solutions'', FloatCell ''2'')]"

definition building_impl :: "string \<Rightarrow> implementation" where
  \<comment> \<open>an implementation whose preparer launches one build command on every call\<close>
  "building_impl n =
     Implementation example_host n ''C''
       (Some (run example_host [''build-'' @ n] (ROOT example_host) None))
       (\<lambda>size' _. [n, str_int size']) None None"

definition example_args :: args where
  "example_args =
     \<lparr>arg_sizes = [4, 5], arg_workers = 0,
      arg_output = [''/'', ''repo'', ''results'', ''nqueens_metrics.csv'']\<rparr>"

definition example_record :: "string \<Rightarrow> int \<Rightarrow> string result_record" where
  \<comment> \<open>the Result Record that \<open>example_row\<close> carries\<close>
  "example_record n size' =
     \<lparr>rr_implementation = n, rr_language = ''C'', rr_size = size', rr_time_sec = ''0.25'',
      rr_max_rss_kb = 1024, rr_nodes = 10, rr_solutions = ''2''\<rparr>"

section \<open>Properties\<close>

subsection \<open>The matcher\<close>












lemma follows_drop_drop: "follows key P (drop k s) \<Longrightarrow> follows key P s"
proof (induction s arbitrary: k)
  case Nil
  then show ?case by simp
next
  case (Cons a s)
  then show ?case by (cases k) auto
qed


lemma first_some_rev_upt:
  "lo \<le> k \<Longrightarrow> f k = Some r \<Longrightarrow> first_some f (rev [lo..<Suc k]) = Some r"
  by simp

lemma m_Lit_append: "m (Lit l # rest) (l @ t) g = m rest t g"
  by (cases "m rest t g") auto

lemma m_Plus_greedy:
  assumes "takeWhile c s \<noteq> []" and "m rest (dropWhile c s) g = Some r"
  shows "m (Plus c # rest) s g = Some r"
proof -
  have "1 \<le> length (takeWhile c s)" using assms(1) by (cases "takeWhile c s") auto
  moreover have "m rest (drop (length (takeWhile c s)) s) g = Some r"
    using assms(2) by (simp add: dropWhile_eq_drop)
  ultimately have "first_some (\<lambda>n. m rest (drop n s) g) (rev [1..<Suc (length (takeWhile c s))]) = Some r"
    by (rule first_some_rev_upt)
  then show ?thesis by simp
qed

lemma m_Star_greedy:
  assumes "m rest (dropWhile c s) g = Some r"
  shows "m (Star c # rest) s g = Some r"
proof -
  have "m rest (drop (length (takeWhile c s)) s) g = Some r"
    using assms by (simp add: dropWhile_eq_drop)
  then have "first_some (\<lambda>n. m rest (drop n s) g) (rev [0..<Suc (length (takeWhile c s))]) = Some r"
    by (intro first_some_rev_upt) auto
  then show ?thesis by simp
qed

lemma m_Group_greedy:
  assumes "takeWhile c s \<noteq> []" and "m rest (dropWhile c s) (g @ [takeWhile c s]) = Some r"
  shows "m (Group (Plus c) # rest) s g = Some r"
proof -
  let ?k = "length (takeWhile c s)"
  have "1 \<le> ?k" using assms(1) by (cases "takeWhile c s") auto
  moreover have "m rest (drop ?k s) (g @ [take ?k s]) = Some r"
    using assms(2) by (simp add: dropWhile_eq_drop takeWhile_eq_take [symmetric])
  ultimately have "first_some (\<lambda>n. m rest (drop n s) (g @ [take n s])) (rev [1..<Suc ?k]) = Some r"
    by (rule first_some_rev_upt)
  then show ?thesis by simp
qed

lemma takeWhile_stop: "\<not> P x \<Longrightarrow> takeWhile P (g @ x # t) = takeWhile P g"
  by (induction g) auto

lemma dropWhile_stop: "\<not> P x \<Longrightarrow> dropWhile P (g @ x # t) = dropWhile P g @ x # t"
  by (induction g) auto

lemma starts_with_takeWhile_ne: "starts_with P s \<Longrightarrow> takeWhile P s \<noteq> []"
  by (cases s) auto

lemma skip_gap:
  assumes gap: "starts_with isspace gap" "list_all (not_char x) gap"
    and x: "\<not> isspace x"
    and rest: "m rest t g = Some r"
  shows "m (Plus isspace # Star (not_char x) # Lit (x # key) # rest) (gap @ (x # key) @ t) g = Some r"
proof -
  let ?s = "gap @ (x # key) @ t"
  have tw: "takeWhile isspace ?s = takeWhile isspace gap"
    using x takeWhile_stop [of isspace x gap "key @ t"] by simp
  have dw: "dropWhile isspace ?s = dropWhile isspace gap @ (x # key) @ t"
    using x dropWhile_stop [of isspace x gap "key @ t"] by simp
  have "\<forall>c\<in>set (dropWhile isspace gap). not_char x c"
    using gap(2) by (auto simp: list_all_iff dest: set_dropWhileD)
  then have "dropWhile (not_char x) (dropWhile isspace gap @ (x # key) @ t) = (x # key) @ t"
    by (simp add: dropWhile_append2 not_char_def)
  moreover have "m (Lit (x # key) # rest) ((x # key) @ t) g = Some r"
    using rest by (simp only: m_Lit_append)
  ultimately have "m (Star (not_char x) # Lit (x # key) # rest) (dropWhile isspace ?s) g = Some r"
    unfolding dw by (intro m_Star_greedy) simp
  moreover have "takeWhile isspace ?s \<noteq> []"
    unfolding tw using gap(1) by (rule starts_with_takeWhile_ne)
  ultimately show ?thesis by (rule m_Plus_greedy [rotated])
qed

lemma run_exact:
  assumes "list_all P d" and "\<not> starts_with P t"
  shows "takeWhile P (d @ t) = d" and "dropWhile P (d @ t) = t"
  using assms by (cases t; simp add: list_all_iff takeWhile_append2 dropWhile_append2)+

lemma group_run:
  assumes "d \<noteq> []" "list_all P d" "\<not> starts_with P t"
    and "m rest t (g @ [d]) = Some r"
  shows "m (Group (Plus P) # rest) (d @ t) g = Some r"
  using assms by (intro m_Group_greedy) (simp_all add: run_exact)

lemma isspace_not_digit_or_dot: "isspace c \<Longrightarrow> \<not> digit_or_dot c"
  by (auto simp: isspace_def digit_or_dot_def isdigit_def Let_def)

lemma isspace_not_isdigit: "isspace c \<Longrightarrow> \<not> isdigit c"
  by (auto simp: isspace_def isdigit_def Let_def)

lemma starts_with_append: "starts_with P a \<Longrightarrow> starts_with P (a @ b)"
  by (cases a) auto

lemma starts_with_space_not:
  assumes "starts_with isspace a"
  shows "\<not> starts_with isdigit (a @ b)" and "\<not> starts_with digit_or_dot (a @ b)"
  using assms by (cases a; auto dest: isspace_not_isdigit isspace_not_digit_or_dot)+

lemma m_render:
  assumes "matchable f"
  shows "m METRIC_PATTERN (render f) [] = Some [size_text f, solutions_text f, nodes_text f]"
proof -
  from assms have
    g1: "starts_with isspace (gap1 f)" "list_all (not_char CHR ''n'') (gap1 f)" and
    d1: "size_text f \<noteq> []" "list_all isdigit (size_text f)" and
    g2: "starts_with isspace (gap2 f)" "list_all (not_char CHR ''s'') (gap2 f)" and
    d2: "solutions_text f \<noteq> []" "list_all digit_or_dot (solutions_text f)" and
    g3: "starts_with isspace (gap3 f)" "list_all (not_char CHR ''n'') (gap3 f)" and
    d3: "nodes_text f \<noteq> []" "list_all isdigit (nodes_text f)" and
    post: "\<not> starts_with isdigit (rest_text f)"
    by (simp_all add: matchable_def)
  have n: "\<not> isspace CHR ''n''" and s: "\<not> isspace CHR ''s''" by (simp_all add: isspace_def)
  let ?G = "[size_text f, solutions_text f, nodes_text f]"
  have "m [] (rest_text f) ([size_text f, solutions_text f] @ [nodes_text f]) = Some ?G" by (simp only: m.simps append.simps)
  then have "m [Group (Plus isdigit)] (nodes_text f @ rest_text f) [size_text f, solutions_text f] = Some ?G"
    by (rule group_run [OF d3 post])
  then have "m (Plus isspace # Star (not_char CHR ''n'') # Lit ''nodes='' # [Group (Plus isdigit)])
      (gap3 f @ ''nodes='' @ nodes_text f @ rest_text f) ([size_text f] @ [solutions_text f]) = Some ?G"
    using skip_gap [OF g3 n, where key = "''odes=''"] by (simp only: append.simps)
  then have "m (Group (Plus digit_or_dot) # Plus isspace # Star (not_char CHR ''n'') # Lit ''nodes='' #
      [Group (Plus isdigit)])
      (solutions_text f @ gap3 f @ ''nodes='' @ nodes_text f @ rest_text f) [size_text f] = Some ?G"
    by (rule group_run [OF d2 starts_with_space_not(2) [OF g3(1)]])
  then have "m (Plus isspace # Star (not_char CHR ''s'') # Lit ''solutions='' #
      Group (Plus digit_or_dot) # Plus isspace # Star (not_char CHR ''n'') # Lit ''nodes='' #
      [Group (Plus isdigit)])
      (gap2 f @ ''solutions='' @ solutions_text f @ gap3 f @ ''nodes='' @ nodes_text f @ rest_text f)
      ([] @ [size_text f]) = Some ?G"
    using skip_gap [OF g2 s, where key = "''olutions=''"] by (simp only: append.simps)
  then have "m (Group (Plus isdigit) # Plus isspace # Star (not_char CHR ''s'') # Lit ''solutions='' #
      Group (Plus digit_or_dot) # Plus isspace # Star (not_char CHR ''n'') # Lit ''nodes='' #
      [Group (Plus isdigit)])
      (size_text f @ gap2 f @ ''solutions='' @ solutions_text f @ gap3 f @ ''nodes='' @ nodes_text f @
       rest_text f) [] = Some ?G"
    by (rule group_run [OF d1 starts_with_space_not(1) [OF g2(1)]])
  then have "m (Plus isspace # Star (not_char CHR ''n'') # Lit ''n='' #
      Group (Plus isdigit) # Plus isspace # Star (not_char CHR ''s'') # Lit ''solutions='' #
      Group (Plus digit_or_dot) # Plus isspace # Star (not_char CHR ''n'') # Lit ''nodes='' #
      [Group (Plus isdigit)])
      (gap1 f @ ''n='' @ size_text f @ gap2 f @ ''solutions='' @ solutions_text f @ gap3 f @
       ''nodes='' @ nodes_text f @ rest_text f) [] = Some ?G"
    using skip_gap [OF g1 n, where key = "''=''"] by (simp only: append.simps)
  then show ?thesis
    unfolding METRIC_PATTERN_def render_def by (simp only: m_Lit_append)
qed

lemma m_Lit_None: "\<not> prefix l s \<Longrightarrow> m (Lit l # rest) s g = None"
  by simp

lemma marker_free_iff:
  "marker_free pre t \<longleftrightarrow> (\<forall>k<length pre. \<not> prefix MARKER (drop k (pre @ t)))"
  by (auto simp: marker_free_def list_all_iff)

lemma search_skip:
  "marker_free pre t \<Longrightarrow> search METRIC_PATTERN (pre @ t) = search METRIC_PATTERN t"
proof (induction pre)
  case Nil
  then show ?case by simp
next
  case (Cons c pre)
  from Cons.prems have all: "\<forall>k<Suc (length pre). \<not> prefix MARKER (drop k ((c # pre) @ t))"
    by (simp add: marker_free_iff)
  from all have "\<not> prefix MARKER (drop 0 ((c # pre) @ t))" by blast
  then have "m METRIC_PATTERN (c # pre @ t) [] = None"
    unfolding METRIC_PATTERN_def by (intro m_Lit_None) simp
  then have "search METRIC_PATTERN ((c # pre) @ t) = search METRIC_PATTERN (pre @ t)" by simp
  moreover have "marker_free pre t"
    unfolding marker_free_iff
  proof (intro allI impI)
    fix k assume "k < length pre"
    then have "\<not> prefix MARKER (drop (Suc k) ((c # pre) @ t))" using all by blast
    then show "\<not> prefix MARKER (drop k (pre @ t))" by simp
  qed
  ultimately show ?case using Cons.IH by simp
qed

lemma search_hit: "m re t [] = Some r \<Longrightarrow> search re t = Some r"
  by (cases t) auto

lemma search_render:
  assumes "matchable f" and "marker_free pre (render f)"
  shows "search METRIC_PATTERN (pre @ render f) = Some [size_text f, solutions_text f, nodes_text f]"
  using search_skip [OF assms(2)] search_hit [OF m_render [OF assms(1)]] by simp


lemma scan_lines_append: "scan_lines acc (xs @ ys) = scan_lines (scan_lines acc xs) ys"
  by (induction xs arbitrary: acc) (auto split: option.splits)

lemma scan_lines_no_match:
  "\<forall>l\<in>set ls. search METRIC_PATTERN l = None \<Longrightarrow> scan_lines acc ls = acc"
  by (induction ls arbitrary: acc) auto

lemma scan_lines_last:
  assumes "search METRIC_PATTERN l = Some g"
    and "\<forall>x\<in>set after. search METRIC_PATTERN x = None"
  shows "scan_lines acc (before @ [l] @ after) = Some g"
  using assms by (simp add: scan_lines_append scan_lines_no_match)

lemma py_int_short: "length s \<le> INT_MAX_STR_DIGITS \<Longrightarrow> py_int s = Inr (decimal_value s)"
  by (simp add: py_int_def)

lemma parse_metrics_last_match:
  assumes "matchable f" and "marker_free pre (render f)"
    and "splitlines (strip stdout) = before @ [pre @ render f] @ after"
    and "\<forall>l\<in>set after. search METRIC_PATTERN l = None"
    and "length (size_text f) \<le> INT_MAX_STR_DIGITS"
    and "length (nodes_text f) \<le> INT_MAX_STR_DIGITS"
    and "py_float (solutions_text f) = Some v"
  shows "parse_metrics py_float stdout =
    Inr (decimal_value (size_text f), v, decimal_value (nodes_text f))"
proof -
  from search_render [OF assms(1,2)] assms(4)
  have "scan_lines None (before @ [pre @ render f] @ after) =
      Some [size_text f, solutions_text f, nodes_text f]"
    by (rule scan_lines_last)
  then show ?thesis
    unfolding parse_metrics_def using assms(3,7)
    by (simp add: py_int_short [OF assms(5)] py_int_short [OF assms(6)])
qed

lemma split_from_word:
  "\<not> list_ex isspace a \<Longrightarrow> split_from cur (a @ b) = split_from (cur @ a) b"
  by (induction a arbitrary: cur) simp_all

lemma split_from_space:
  "isspace c \<Longrightarrow> split_from cur (a @ c # b) = split_from cur (a @ [c]) @ split_from [] b"
  by (induction a arbitrary: cur) simp_all

lemma tokens_after_space:
  assumes "at_token_start a"
  shows "tokens (a @ b) = tokens a @ tokens b"
proof (cases "a = []")
  case True
  then show ?thesis by (simp add: tokens_def)
next
  case False
  then obtain a' c where a: "a = a' @ [c]" by (cases a rule: rev_cases) auto
  with assms have "isspace c" by (simp add: at_token_start_def ends_with_space_def)
  from split_from_space [OF this, of "[]" a' b] show ?thesis by (simp add: a tokens_def)
qed

lemma tokens_word:
  assumes "tok \<noteq> []" and "\<not> list_ex isspace tok" and "b = [] \<or> starts_with isspace b"
  shows "tokens (tok @ b) = tok # tokens b"
proof (cases b)
  case Nil
  with assms(1,2) split_from_word [of tok "[]" "[]"] show ?thesis by (simp add: tokens_def)
next
  case (Cons c b')
  with assms(3) have "isspace c" by simp
  with assms(1,2) split_from_word [of tok "[]" "c # b'"] Cons show ?thesis
    by (simp add: tokens_def)
qed

lemma in_order_skip: "in_order ps ts \<Longrightarrow> in_order ps (xs @ ts)"
proof (induction xs)
  case Nil
  then show ?case by simp
next
  case (Cons x xs)
  then show ?case by (cases ps) simp_all
qed

lemma in_order_found: "p t \<Longrightarrow> in_order ps (xs @ ts) \<Longrightarrow> in_order (p # ps) (t # xs @ ts)"
  by simp

lemma digits_no_space: "list_all isdigit s \<Longrightarrow> \<not> list_ex isspace s"
  by (auto simp: list_all_iff list_ex_iff isspace_not_isdigit)

lemma decimal_no_space: "list_all digit_or_dot s \<Longrightarrow> \<not> list_ex isspace s"
  by (auto simp: list_all_iff list_ex_iff isspace_not_digit_or_dot)

lemma key_value_token:
  assumes "\<not> list_ex isspace key" and "key \<noteq> []" and "\<not> list_ex isspace v"
    and "b = [] \<or> starts_with isspace b"
  shows "tokens (key @ v @ b) = (key @ v) # tokens b"
  using tokens_word [of "key @ v" b] assms by simp

lemma render_tokens:
  assumes "well_formed f" and "at_token_start pre"
  shows "tokens (pre @ render f) =
    tokens pre @ MARKER # tokens (gap1 f) @ (''n='' @ size_text f) # tokens (gap2 f) @
    (''solutions='' @ solutions_text f) # tokens (gap3 f) @
    (''nodes='' @ nodes_text f) # tokens (rest_text f)"
proof -
  from assms(1) have
    g1: "starts_with isspace (gap1 f)" "at_token_start (gap1 f)" and
    d1: "list_all isdigit (size_text f)" and
    g2: "starts_with isspace (gap2 f)" "at_token_start (gap2 f)" and
    d2: "list_all digit_or_dot (solutions_text f)" and
    g3: "starts_with isspace (gap3 f)" "at_token_start (gap3 f)" and
    d3: "list_all isdigit (nodes_text f)" and
    post: "rest_text f = [] \<or> starts_with isspace (rest_text f)"
    by (simp_all add: well_formed_def matchable_def at_token_start_def)
  have k: "\<not> list_ex isspace MARKER" "\<not> list_ex isspace ''n=''"
    "\<not> list_ex isspace ''solutions=''" "\<not> list_ex isspace ''nodes=''"
    by (simp_all add: MARKER_def isspace_def)
  have t4: "tokens (''nodes='' @ nodes_text f @ rest_text f) =
      (''nodes='' @ nodes_text f) # tokens (rest_text f)"
    using k(4) _ digits_no_space [OF d3] post by (rule key_value_token) simp
  have t3: "tokens (''solutions='' @ solutions_text f @ gap3 f @ ''nodes='' @ nodes_text f @
      rest_text f) =
    (''solutions='' @ solutions_text f) # tokens (gap3 f) @
      (''nodes='' @ nodes_text f) # tokens (rest_text f)"
    using key_value_token [OF k(3) _ decimal_no_space [OF d2],
        of "gap3 f @ ''nodes='' @ nodes_text f @ rest_text f"]
      starts_with_append [OF g3(1)] tokens_after_space [OF g3(2)] t4
    by simp
  have t2: "tokens (''n='' @ size_text f @ gap2 f @ ''solutions='' @ solutions_text f @ gap3 f @
      ''nodes='' @ nodes_text f @ rest_text f) =
    (''n='' @ size_text f) # tokens (gap2 f) @ (''solutions='' @ solutions_text f) #
      tokens (gap3 f) @ (''nodes='' @ nodes_text f) # tokens (rest_text f)"
    using key_value_token [OF k(2) _ digits_no_space [OF d1],
        of "gap2 f @ ''solutions='' @ solutions_text f @ gap3 f @ ''nodes='' @ nodes_text f @
          rest_text f"]
      starts_with_append [OF g2(1)] tokens_after_space [OF g2(2)] t3
    by simp
  have t1: "tokens (render f) =
    MARKER # tokens (gap1 f) @ (''n='' @ size_text f) # tokens (gap2 f) @
      (''solutions='' @ solutions_text f) # tokens (gap3 f) @
      (''nodes='' @ nodes_text f) # tokens (rest_text f)"
    unfolding render_def
    using tokens_word [OF _ k(1), of "gap1 f @ ''n='' @ size_text f @ gap2 f @ ''solutions='' @
          solutions_text f @ gap3 f @ ''nodes='' @ nodes_text f @ rest_text f"]
      starts_with_append [OF g1(1)] tokens_after_space [OF g1(2)] t2
    by (simp add: MARKER_def)
  show ?thesis
    by (simp only: tokens_after_space [OF assms(2)] t1)
qed

lemma render_qualifying:
  assumes "well_formed f" and "at_token_start pre"
  shows "qualifying_line (pre @ render f)"
proof -
  from assms(1) have
    n: "field ''n='' is_integer (''n='' @ size_text f)" and
    s: "field ''solutions='' is_decimal (''solutions='' @ solutions_text f)" and
    d: "field ''nodes='' is_integer (''nodes='' @ nodes_text f)"
    by (simp_all add: well_formed_def matchable_def field_def is_integer_def)
  have "in_order [field ''nodes='' is_integer]
      (tokens (gap3 f) @ (''nodes='' @ nodes_text f) # tokens (rest_text f))"
    using d by (intro in_order_skip) simp
  with s have "in_order [field ''solutions='' is_decimal, field ''nodes='' is_integer]
      (tokens (gap2 f) @ (''solutions='' @ solutions_text f) # tokens (gap3 f) @
        (''nodes='' @ nodes_text f) # tokens (rest_text f))"
    by (intro in_order_skip) simp
  with n have "in_order [field ''n='' is_integer, field ''solutions='' is_decimal,
        field ''nodes='' is_integer]
      (tokens (gap1 f) @ (''n='' @ size_text f) # tokens (gap2 f) @
        (''solutions='' @ solutions_text f) # tokens (gap3 f) @
        (''nodes='' @ nodes_text f) # tokens (rest_text f))"
    by (intro in_order_skip) simp
  then have "in_order [\<lambda>tok. tok = MARKER, field ''n='' is_integer,
        field ''solutions='' is_decimal, field ''nodes='' is_integer]
      (tokens pre @ MARKER # tokens (gap1 f) @ (''n='' @ size_text f) # tokens (gap2 f) @
        (''solutions='' @ solutions_text f) # tokens (gap3 f) @
        (''nodes='' @ nodes_text f) # tokens (rest_text f))"
    by (intro in_order_skip) simp
  then show ?thesis
    by (simp only: qualifying_line_def render_tokens [OF assms])
qed

lemma well_formed_matchable: "well_formed f \<Longrightarrow> matchable f"
  by (simp add: well_formed_def)

lemma well_formed_lengths:
  "well_formed f \<Longrightarrow> length (size_text f) \<le> INT_MAX_STR_DIGITS"
  "well_formed f \<Longrightarrow> length (nodes_text f) \<le> INT_MAX_STR_DIGITS"
  by (simp_all add: well_formed_def)




text \<open>
  C3 (amended). When exactly one line of the text qualifies, and that line is
  \<open>pre @ render f\<close> for well-formed fields \<open>f\<close>, with no occurrence of the marker in
  \<open>pre\<close>, which is empty or ends with white space, extraction returns the size,
  solutions and nodes embedded in it, provided that \<^verbatim>\<open>float\<close> converts the solutions
  and that the pattern matches no later line.  The gaps of a well-formed \<open>f\<close> are
  what the pattern can skip: the text between the marker and \<^verbatim>\<open>n=\<close> and between the
  solutions and \<^verbatim>\<open>nodes=\<close> holds no \<^verbatim>\<open>n\<close>, the text between the size and
  \<^verbatim>\<open>solutions=\<close> no \<^verbatim>\<open>s\<close>.
\<close>

theorem parse_metrics_single_line:
  assumes "well_formed f" and "at_token_start pre" and "marker_free pre (render f)"
    and "splitlines (strip stdout) = before @ [pre @ render f] @ after"
    and "\<forall>l\<in>set (before @ after). \<not> qualifying_line l"
    and "\<forall>l\<in>set after. search METRIC_PATTERN l = None"
    and "py_float (solutions_text f) = Some v"
  shows "qualifying_line (pre @ render f) \<and>
    parse_metrics py_float stdout =
      Inr (decimal_value (size_text f), v, decimal_value (nodes_text f))"
proof
  show "qualifying_line (pre @ render f)"
    using assms(1,2) by (rule render_qualifying)
  show "parse_metrics py_float stdout =
      Inr (decimal_value (size_text f), v, decimal_value (nodes_text f))"
    using well_formed_matchable [OF assms(1)] assms(3,4,6)
      well_formed_lengths [OF assms(1)] assms(7)
    by (rule parse_metrics_last_match)
qed

theorem parse_metrics_single_line_witness:
  "well_formed \<lparr>gap1 = ''  x=1 '', size_text = ''4'', gap2 = '' '', solutions_text = ''2.0'',
      gap3 = '' t=0.5 '', nodes_text = ''10'', rest_text = '' ok''\<rparr> \<and>
   at_token_start ''foo '' \<and>
   marker_free ''foo '' ''NQUEENS_METRICS  x=1 n=4 solutions=2.0 t=0.5 nodes=10 ok'' \<and>
   splitlines (strip (''start'' @ [CHR 0x0A] @
       ''foo NQUEENS_METRICS  x=1 n=4 solutions=2.0 t=0.5 nodes=10 ok'' @ [CHR 0x0A] @
       ''done'' @ [CHR 0x0A])) =
     [''start'', ''foo NQUEENS_METRICS  x=1 n=4 solutions=2.0 t=0.5 nodes=10 ok'', ''done''] \<and>
   \<not> qualifying_line ''start'' \<and> \<not> qualifying_line ''done'' \<and>
   search METRIC_PATTERN ''done'' = None \<and>
   qualifying_line ''foo NQUEENS_METRICS  x=1 n=4 solutions=2.0 t=0.5 nodes=10 ok'' \<and>
   parse_metrics (\<lambda>s. Some s) (''start'' @ [CHR 0x0A] @
       ''foo NQUEENS_METRICS  x=1 n=4 solutions=2.0 t=0.5 nodes=10 ok'' @ [CHR 0x0A] @
       ''done'' @ [CHR 0x0A]) = Inr (4, ''2.0'', 10)"
proof -
  let ?f = "\<lparr>gap1 = ''  x=1 '', size_text = ''4'', gap2 = '' '', solutions_text = ''2.0'',
      gap3 = '' t=0.5 '', nodes_text = ''10'', rest_text = '' ok''\<rparr>"
  let ?L = "''foo NQUEENS_METRICS  x=1 n=4 solutions=2.0 t=0.5 nodes=10 ok''"
  let ?S = "''start'' @ [CHR 0x0A] @ ?L @ [CHR 0x0A] @ ''done'' @ [CHR 0x0A]"
  have r: "render ?f = ''NQUEENS_METRICS  x=1 n=4 solutions=2.0 t=0.5 nodes=10 ok''"
    by code_simp
  have w: "well_formed ?f" by code_simp
  have a: "at_token_start ''foo ''" by code_simp
  have mf: "marker_free ''foo '' (render ?f)" by code_simp
  have l: "splitlines (strip ?S) = [''start''] @ [''foo '' @ render ?f] @ [''done'']"
    by code_simp
  have q1: "\<not> qualifying_line ''start''" and q2: "\<not> qualifying_line ''done''"
    by code_simp+
  have n: "search METRIC_PATTERN ''done'' = None" by code_simp
  have others: "\<forall>l\<in>set ([''start''] @ [''done'']). \<not> qualifying_line l"
    using q1 q2 by simp
  have later: "\<forall>l\<in>set [''done'']. search METRIC_PATTERN l = None"
    using n by simp
  have i: "decimal_value ''4'' = 4" "decimal_value ''10'' = 10" by code_simp+
  have pf: "(\<lambda>s. Some s) (solutions_text ?f) = Some ''2.0''" by simp
  from parse_metrics_single_line [of ?f "''foo ''" ?S "[''start'']" "[''done'']"
      "\<lambda>s. Some s" "''2.0''", OF w a mf l others later pf]
  have "qualifying_line (''foo '' @ render ?f)"
    and "parse_metrics (\<lambda>s. Some s) ?S = Inr (decimal_value ''4'', ''2.0'', decimal_value ''10'')"
    by simp_all
  then have "qualifying_line ?L" and "parse_metrics (\<lambda>s. Some s) ?S = Inr (4, ''2.0'', 10)"
    unfolding r i by simp_all
  moreover have "splitlines (strip ?S) = [''start'', ?L, ''done'']" by code_simp
  moreover have "marker_free ''foo '' ''NQUEENS_METRICS  x=1 n=4 solutions=2.0 t=0.5 nodes=10 ok''"
    using mf unfolding r .
  ultimately show ?thesis using w a q1 q2 n by blast
qed

theorem parse_metrics_single_line_counterexample:
  "qualifying_line ''NQUEENS_METRICS n=4 workers=2 solutions=2 nodes=10'' \<and>
   splitlines (strip ''NQUEENS_METRICS n=4 workers=2 solutions=2 nodes=10'') =
     [''NQUEENS_METRICS n=4 workers=2 solutions=2 nodes=10''] \<and>
   parse_metrics (\<lambda>s. Some s) ''NQUEENS_METRICS n=4 workers=2 solutions=2 nodes=10'' =
     Inl (RuntimeError FailedToParseMetrics)"
  by code_simp

text \<open>
  C4 (amended). When two or more lines of the text qualify, and the last of them
  is \<open>pre @ render f\<close> for well-formed fields \<open>f\<close>, with no occurrence of the marker
  in \<open>pre\<close>, which is empty or ends with white space, extraction returns the size,
  solutions and nodes of that last line, whatever the earlier lines hold, provided
  that \<^verbatim>\<open>float\<close> converts the solutions and that the pattern matches no later line.
\<close>

theorem parse_metrics_last_line:
  assumes "well_formed f" and "at_token_start pre" and "marker_free pre (render f)"
    and "splitlines (strip stdout) = before @ [pre @ render f] @ after"
    and "\<exists>l\<in>set before. qualifying_line l"
    and "\<forall>l\<in>set after. \<not> qualifying_line l"
    and "\<forall>l\<in>set after. search METRIC_PATTERN l = None"
    and "py_float (solutions_text f) = Some v"
  shows "qualifying_line (pre @ render f) \<and>
    parse_metrics py_float stdout =
      Inr (decimal_value (size_text f), v, decimal_value (nodes_text f))"
proof
  show "qualifying_line (pre @ render f)"
    using assms(1,2) by (rule render_qualifying)
  show "parse_metrics py_float stdout =
      Inr (decimal_value (size_text f), v, decimal_value (nodes_text f))"
    using well_formed_matchable [OF assms(1)] assms(3,4,7)
      well_formed_lengths [OF assms(1)] assms(8)
    by (rule parse_metrics_last_match)
qed

theorem parse_metrics_last_line_witness:
  "well_formed \<lparr>gap1 = '' '', size_text = ''4'', gap2 = '' '', solutions_text = ''2'',
      gap3 = '' '', nodes_text = ''10'', rest_text = []\<rparr> \<and>
   at_token_start [] \<and>
   marker_free [] ''NQUEENS_METRICS n=4 solutions=2 nodes=10'' \<and>
   splitlines (strip (''NQUEENS_METRICS n=4 solutions=1 nodes=5'' @ [CHR 0x0A] @
       ''NQUEENS_METRICS n=4 solutions=2 nodes=10'' @ [CHR 0x0A] @ ''done'' @ [CHR 0x0A])) =
     [''NQUEENS_METRICS n=4 solutions=1 nodes=5'', ''NQUEENS_METRICS n=4 solutions=2 nodes=10'',
      ''done''] \<and>
   qualifying_line ''NQUEENS_METRICS n=4 solutions=1 nodes=5'' \<and>
   qualifying_line ''NQUEENS_METRICS n=4 solutions=2 nodes=10'' \<and>
   \<not> qualifying_line ''done'' \<and>
   search METRIC_PATTERN ''done'' = None \<and>
   parse_metrics (\<lambda>s. Some s) (''NQUEENS_METRICS n=4 solutions=1 nodes=5'' @ [CHR 0x0A] @
       ''NQUEENS_METRICS n=4 solutions=2 nodes=10'' @ [CHR 0x0A] @ ''done'' @ [CHR 0x0A]) =
     Inr (4, ''2'', 10)"
proof -
  let ?f = "\<lparr>gap1 = '' '', size_text = ''4'', gap2 = '' '', solutions_text = ''2'',
      gap3 = '' '', nodes_text = ''10'', rest_text = []\<rparr>"
  let ?P = "''NQUEENS_METRICS n=4 solutions=1 nodes=5''"
  let ?L = "''NQUEENS_METRICS n=4 solutions=2 nodes=10''"
  let ?S = "?P @ [CHR 0x0A] @ ?L @ [CHR 0x0A] @ ''done'' @ [CHR 0x0A]"
  have r: "render ?f = ?L" by code_simp
  have w: "well_formed ?f" by code_simp
  have a: "at_token_start []" by code_simp
  have mf: "marker_free [] (render ?f)" by code_simp
  have l: "splitlines (strip ?S) = [?P] @ [[] @ render ?f] @ [''done'']"
    by code_simp
  have q1: "qualifying_line ?P" and q2: "\<not> qualifying_line ''done''"
    by code_simp+
  have n: "search METRIC_PATTERN ''done'' = None" by code_simp
  have earlier: "\<exists>l\<in>set [?P]. qualifying_line l" using q1 by simp
  have later: "\<forall>l\<in>set [''done'']. \<not> qualifying_line l" using q2 by simp
  have unmatched: "\<forall>l\<in>set [''done'']. search METRIC_PATTERN l = None" using n by simp
  have i: "decimal_value ''4'' = 4" "decimal_value ''10'' = 10" by code_simp+
  have pf: "(\<lambda>s. Some s) (solutions_text ?f) = Some ''2''" by simp
  from parse_metrics_last_line [of ?f "[]" ?S "[?P]" "[''done'']"
      "\<lambda>s. Some s" "''2''", OF w a mf l earlier later unmatched pf]
  have "qualifying_line ([] @ render ?f)"
    and "parse_metrics (\<lambda>s. Some s) ?S = Inr (decimal_value ''4'', ''2'', decimal_value ''10'')"
    by simp_all
  then have "qualifying_line ?L" and "parse_metrics (\<lambda>s. Some s) ?S = Inr (4, ''2'', 10)"
    unfolding r i by simp_all
  moreover have "splitlines (strip ?S) = [?P, ?L, ''done'']" by code_simp
  moreover have "marker_free [] ?L" using mf unfolding r .
  ultimately show ?thesis using w a q1 q2 n by blast
qed

theorem parse_metrics_last_line_counterexample:
  "splitlines (strip (''NQUEENS_METRICS n=4 solutions=2 nodes=10'' @ [CHR 0x0A] @
       ''NQUEENS_METRICS n=4 solutions=2 engine=x nodes=99'')) =
     [''NQUEENS_METRICS n=4 solutions=2 nodes=10'',
      ''NQUEENS_METRICS n=4 solutions=2 engine=x nodes=99''] \<and>
   qualifying_line ''NQUEENS_METRICS n=4 solutions=2 nodes=10'' \<and>
   qualifying_line ''NQUEENS_METRICS n=4 solutions=2 engine=x nodes=99'' \<and>
   parse_metrics (\<lambda>s. Some s) (''NQUEENS_METRICS n=4 solutions=2 nodes=10'' @ [CHR 0x0A] @
       ''NQUEENS_METRICS n=4 solutions=2 engine=x nodes=99'') = Inr (4, ''2'', 10)"
  by code_simp

subsection \<open>The Run Executor\<close>

lemma execute_with_metrics_done:
  assumes "mp_worker h cmd cwd env w = ((0, Some r), w')"
  shows "execute_with_metrics h cmd cwd env w =
    (Inr (r, cmd), w'\<lparr>history := history w @ [Measure cmd cwd]\<rparr>)"
  using assms by (simp add: execute_with_metrics_def)

text \<open>
  C7. When the measured command exits with a non-zero code, the trial raises
  \<^verbatim>\<open>CalledProcessError\<close> with that code, the command, and the captured standard output
  and error.  This holds whatever the output is, so it is not parsed: the error is
  the same when the output holds a valid metrics line and when \<^verbatim>\<open>parse_metrics\<close>
  would raise on it.
\<close>

theorem run_implementation_nonzero_exit:
  assumes "mp_worker h (command_for impl size' workers) (workdir impl) (base_env h impl) w =
      ((0, Some r), w')"
    and "returncode r \<noteq> 0"
  shows "fst (run_implementation h impl size' workers w) =
    Inl (CalledProcessError (returncode r) (command_for impl size' workers)
           (Some (stdout_text r)) (Some (stderr_text r)))"
  using assms(2)
  by (simp add: run_implementation_def bind_def raise_def
      execute_with_metrics_done [OF assms(1)])

theorem run_implementation_nonzero_exit_witness:
  "parse_metrics (\<lambda>s. Some s) ''NQUEENS_METRICS n=4 solutions=2 nodes=10'' = Inr (4, ''2'', 10) \<and>
   fst (run_implementation
          (example_host\<lparr>mp_worker := (\<lambda>cmd cwd env w.
             ((0, Some \<lparr>returncode = 1, stdout_text = ''NQUEENS_METRICS n=4 solutions=2 nodes=10'',
                        stderr_text = ''boom'', elapsed = ''0.1'', max_rss = 7\<rparr>), w))\<rparr>)
          (example_impl ''queen'') 4 0 example_world) =
     Inl (CalledProcessError 1 [''queen'', ''4'']
            (Some ''NQUEENS_METRICS n=4 solutions=2 nodes=10'') (Some ''boom''))"
proof -
  let ?r = "\<lparr>returncode = 1, stdout_text = ''NQUEENS_METRICS n=4 solutions=2 nodes=10'',
             stderr_text = ''boom'', elapsed = ''0.1'', max_rss = 7\<rparr> :: string completed"
  let ?h = "example_host\<lparr>mp_worker := (\<lambda>cmd cwd env w. ((0, Some ?r), w))\<rparr>"
  have c: "command_for (example_impl ''queen'') 4 0 = [''queen'', ''4'']" by code_simp
  have p: "parse_metrics (\<lambda>s. Some s) ''NQUEENS_METRICS n=4 solutions=2 nodes=10'' =
      Inr (4, ''2'', 10)" by code_simp
  have "mp_worker ?h (command_for (example_impl ''queen'') 4 0) (workdir (example_impl ''queen''))
      (base_env ?h (example_impl ''queen'')) example_world = ((0, Some ?r), example_world)"
    by simp
  moreover have "returncode ?r \<noteq> 0" by simp
  ultimately have "fst (run_implementation ?h (example_impl ''queen'') 4 0 example_world) =
    Inl (CalledProcessError (returncode ?r) (command_for (example_impl ''queen'') 4 0)
           (Some (stdout_text ?r)) (Some (stderr_text ?r)))"
    by (rule run_implementation_nonzero_exit)
  then show ?thesis using p by (simp add: c)
qed

text \<open>
  C6. When the measured command exits with code zero and the size extracted from
  its output differs from the requested size, the trial raises the size-mismatch
  \<^verbatim>\<open>RuntimeError\<close> naming both sizes: no row is returned.
\<close>

theorem run_implementation_size_mismatch:
  assumes "mp_worker h (command_for impl size' workers) (workdir impl) (base_env h impl) w =
      ((0, Some r), w')"
    and "returncode r = 0"
    and "parse_metrics (host_float h) (stdout_text r) = Inr (measured_size, solutions, nodes)"
    and "measured_size \<noteq> size'"
  shows "fst (run_implementation h impl size' workers w) =
    Inl (RuntimeError (ReportedSize (name impl) measured_size size'))"
  using assms(2,3,4)
  by (simp add: run_implementation_def bind_def raise_def
      execute_with_metrics_done [OF assms(1)])

theorem run_implementation_size_mismatch_witness:
  "parse_metrics (host_float example_host) (stdout_text (example_completed [''queen'', ''4''])) =
     Inr (4, ''2'', 10) \<and>
   fst (run_implementation
          (example_host\<lparr>mp_worker := (\<lambda>cmd cwd env w.
             ((0, Some (example_completed [''queen'', ''4''])), w))\<rparr>)
          (example_impl ''queen'') 5 0 example_world) =
     Inl (RuntimeError (ReportedSize ''queen'' 4 5))"
proof -
  let ?r = "example_completed [''queen'', ''4'']"
  let ?h = "example_host\<lparr>mp_worker := (\<lambda>cmd cwd env w. ((0, Some ?r), w))\<rparr>"
  have p: "parse_metrics (host_float example_host) (stdout_text ?r) = Inr (4, ''2'', 10)"
    by code_simp
  have hf: "host_float ?h = host_float example_host" by simp
  have n: "name (example_impl ''queen'') = ''queen''" by code_simp
  have "mp_worker ?h (command_for (example_impl ''queen'') 5 0) (workdir (example_impl ''queen''))
      (base_env ?h (example_impl ''queen'')) example_world = ((0, Some ?r), example_world)"
    by simp
  moreover have "returncode ?r = 0" by (simp add: example_completed_def)
  moreover have "parse_metrics (host_float ?h) (stdout_text ?r) = Inr (4, ''2'', 10)"
    unfolding hf by (rule p)
  moreover have "(4::int) \<noteq> 5" by simp
  ultimately have "fst (run_implementation ?h (example_impl ''queen'') 5 0 example_world) =
    Inl (RuntimeError (ReportedSize (name (example_impl ''queen'')) 4 5))"
    by (rule run_implementation_size_mismatch)
  then show ?thesis using p by (simp add: n)
qed

subsection \<open>Preparers\<close>

lemma seq_when_skip:
  "\<not> c w \<Longrightarrow> seq (when_true c f) g w = g w"
  by (simp add: seq_def bind_def when_true_def)

lemma when_skip: "\<not> c w \<Longrightarrow> when_true c f w = (Inr (), w)"
  by (simp add: when_true_def)

lemma run_history:
  "history (snd (run h cmd cwd env w)) = history w \<or>
   history (snd (run h cmd cwd env w)) = history w @ [Build cmd cwd]"
  by (simp add: run_def Let_def split: prod.splits sum.splits)

lemma run_spawns:
  assumes "cwd = ROOT h \<or> prefix (ROOT h) cwd"
  shows "history (snd (run h cmd cwd env w)) = history w @ [Build cmd cwd]"
  using assms by (auto simp: run_def Let_def split: prod.splits sum.splits)

text \<open>
  C1 (amended). Sylvan's and JDD's preparers return at once, launching no build
  command and leaving the world as it is, when their terminal artifact exists;
  CUDD's and JSylvan's do so when their terminal artifact and the library it is
  built on both exist.  Hence, for these four, when a call succeeds and leaves
  these artifacts in place, calling the preparer twice in succession does what
  calling it once does: the second call is a no-op.
\<close>

theorem preparers_skip_when_built:
  "(exists w (ROOT h @ [''sylvan'', ''build'', ''examples'', ''nqueens_fast'']) \<longrightarrow>
      ensure_sylvan h w = (Inr (), w)) \<and>
   (exists w (ROOT h @ [''jdd'', ''build'', ''classes'', ''java'', ''main'', ''jdd'', ''examples'',
                        ''BDDQueens.class'']) \<longrightarrow>
      ensure_jdd h w = (Inr (), w)) \<and>
   (exists w (ROOT h @ [''cudd'', ''cudd'', ''.libs'', ''libcudd.a'']) \<and>
    exists w (ROOT h @ [''cudd'', ''bin'', ''nqueens_bdd'']) \<longrightarrow>
      ensure_cudd h w = (Inr (), w)) \<and>
   (exists w (ROOT h @ [''jsylvan'', ''src'', ''main'', ''resources'', ''linux-x64'',
                        ''libsylvan-java.so'']) \<and>
    exists w (ROOT h @ [''jsylvan'', ''target'', ''sylvan-1.0.0-SNAPSHOT.jar'']) \<longrightarrow>
      ensure_jsylvan h w = (Inr (), w)) \<and>
   (fst (ensure_sylvan h w) = Inr () \<and>
    exists (snd (ensure_sylvan h w))
      (ROOT h @ [''sylvan'', ''build'', ''examples'', ''nqueens_fast'']) \<longrightarrow>
      seq (ensure_sylvan h) (ensure_sylvan h) w = ensure_sylvan h w) \<and>
   (fst (ensure_jdd h w) = Inr () \<and>
    exists (snd (ensure_jdd h w))
      (ROOT h @ [''jdd'', ''build'', ''classes'', ''java'', ''main'', ''jdd'', ''examples'',
                 ''BDDQueens.class'']) \<longrightarrow>
      seq (ensure_jdd h) (ensure_jdd h) w = ensure_jdd h w) \<and>
   (fst (ensure_cudd h w) = Inr () \<and>
    exists (snd (ensure_cudd h w)) (ROOT h @ [''cudd'', ''cudd'', ''.libs'', ''libcudd.a'']) \<and>
    exists (snd (ensure_cudd h w)) (ROOT h @ [''cudd'', ''bin'', ''nqueens_bdd'']) \<longrightarrow>
      seq (ensure_cudd h) (ensure_cudd h) w = ensure_cudd h w) \<and>
   (fst (ensure_jsylvan h w) = Inr () \<and>
    exists (snd (ensure_jsylvan h w))
      (ROOT h @ [''jsylvan'', ''src'', ''main'', ''resources'', ''linux-x64'',
                 ''libsylvan-java.so'']) \<and>
    exists (snd (ensure_jsylvan h w))
      (ROOT h @ [''jsylvan'', ''target'', ''sylvan-1.0.0-SNAPSHOT.jar'']) \<longrightarrow>
      seq (ensure_jsylvan h) (ensure_jsylvan h) w = ensure_jsylvan h w)"
proof -
  have sylvan: "ensure_sylvan h v = (Inr (), v)"
    if "exists v (ROOT h @ [''sylvan'', ''build'', ''examples'', ''nqueens_fast''])" for v
    using that by (simp add: ensure_sylvan_def)
  have jdd: "ensure_jdd h v = (Inr (), v)"
    if "exists v (ROOT h @ [''jdd'', ''build'', ''classes'', ''java'', ''main'', ''jdd'',
      ''examples'', ''BDDQueens.class''])" for v
    using that by (simp add: ensure_jdd_def)
  have cudd: "ensure_cudd h v = (Inr (), v)"
    if "exists v (ROOT h @ [''cudd'', ''cudd'', ''.libs'', ''libcudd.a''])"
      and "exists v (ROOT h @ [''cudd'', ''bin'', ''nqueens_bdd''])" for v
    using that by (simp add: ensure_cudd_def Let_def seq_when_skip when_skip)
  have jsylvan: "ensure_jsylvan h v = (Inr (), v)"
    if "exists v (ROOT h @ [''jsylvan'', ''src'', ''main'', ''resources'', ''linux-x64'',
      ''libsylvan-java.so''])"
      and "exists v (ROOT h @ [''jsylvan'', ''target'', ''sylvan-1.0.0-SNAPSHOT.jar''])" for v
    using that by (simp add: ensure_jsylvan_def Let_def seq_when_skip when_skip)
  have twice: "seq f f w = f w"
    if "fst (f w) = Inr ()" and "f (snd (f w)) = (Inr (), snd (f w))"
    for f :: "(unit, world) io"
    using that by (cases "f w") (simp add: seq_def bind_def)
  show ?thesis
    using sylvan [of w] jdd [of w] cudd [of w] jsylvan [of w]
      twice [of "ensure_sylvan h", OF _ sylvan] twice [of "ensure_jdd h", OF _ jdd]
      twice [of "ensure_cudd h", OF _ cudd] twice [of "ensure_jsylvan h", OF _ jsylvan]
    by blast
qed

theorem preparers_skip_when_built_witness:
  "exists built_world (ROOT example_host @ [''sylvan'', ''build'', ''examples'', ''nqueens_fast'']) \<and>
   ensure_sylvan example_host built_world = (Inr (), built_world) \<and>
   exists built_world (ROOT example_host @ [''jdd'', ''build'', ''classes'', ''java'', ''main'',
     ''jdd'', ''examples'', ''BDDQueens.class'']) \<and>
   ensure_jdd example_host built_world = (Inr (), built_world) \<and>
   exists built_world (ROOT example_host @ [''cudd'', ''cudd'', ''.libs'', ''libcudd.a'']) \<and>
   exists built_world (ROOT example_host @ [''cudd'', ''bin'', ''nqueens_bdd'']) \<and>
   ensure_cudd example_host built_world = (Inr (), built_world) \<and>
   exists built_world (ROOT example_host @ [''jsylvan'', ''src'', ''main'', ''resources'',
     ''linux-x64'', ''libsylvan-java.so'']) \<and>
   exists built_world (ROOT example_host @ [''jsylvan'', ''target'', ''sylvan-1.0.0-SNAPSHOT.jar'']) \<and>
   ensure_jsylvan example_host built_world = (Inr (), built_world) \<and>
   history (snd (ensure_sylvan making_host example_world)) \<noteq> [] \<and>
   seq (ensure_sylvan making_host) (ensure_sylvan making_host) example_world =
     ensure_sylvan making_host example_world \<and>
   history (snd (ensure_jdd making_host example_world)) \<noteq> [] \<and>
   seq (ensure_jdd making_host) (ensure_jdd making_host) example_world =
     ensure_jdd making_host example_world \<and>
   history (snd (ensure_cudd making_host example_world)) \<noteq> [] \<and>
   seq (ensure_cudd making_host) (ensure_cudd making_host) example_world =
     ensure_cudd making_host example_world \<and>
   history (snd (ensure_jsylvan making_host example_world)) \<noteq> [] \<and>
   seq (ensure_jsylvan making_host) (ensure_jsylvan making_host) example_world =
     ensure_jsylvan making_host example_world"
proof -
  have e: "exists built_world (ROOT example_host @ [''sylvan'', ''build'', ''examples'', ''nqueens_fast''])"
    "exists built_world (ROOT example_host @ [''jdd'', ''build'', ''classes'', ''java'', ''main'',
       ''jdd'', ''examples'', ''BDDQueens.class''])"
    "exists built_world (ROOT example_host @ [''cudd'', ''cudd'', ''.libs'', ''libcudd.a''])"
    "exists built_world (ROOT example_host @ [''cudd'', ''bin'', ''nqueens_bdd''])"
    "exists built_world (ROOT example_host @ [''jsylvan'', ''src'', ''main'', ''resources'',
       ''linux-x64'', ''libsylvan-java.so''])"
    "exists built_world (ROOT example_host @ [''jsylvan'', ''target'', ''sylvan-1.0.0-SNAPSHOT.jar''])"
    by code_simp+
  have s: "fst (ensure_sylvan making_host example_world) = Inr ()"
    "exists (snd (ensure_sylvan making_host example_world))
       (ROOT making_host @ [''sylvan'', ''build'', ''examples'', ''nqueens_fast''])"
    "history (snd (ensure_sylvan making_host example_world)) \<noteq> []"
    by code_simp+
  have j: "fst (ensure_jdd making_host example_world) = Inr ()"
    "exists (snd (ensure_jdd making_host example_world))
       (ROOT making_host @ [''jdd'', ''build'', ''classes'', ''java'', ''main'', ''jdd'',
         ''examples'', ''BDDQueens.class''])"
    "history (snd (ensure_jdd making_host example_world)) \<noteq> []"
    by code_simp+
  have c: "fst (ensure_cudd making_host example_world) = Inr ()"
    "exists (snd (ensure_cudd making_host example_world))
       (ROOT making_host @ [''cudd'', ''cudd'', ''.libs'', ''libcudd.a''])"
    "exists (snd (ensure_cudd making_host example_world))
       (ROOT making_host @ [''cudd'', ''bin'', ''nqueens_bdd''])"
    "history (snd (ensure_cudd making_host example_world)) \<noteq> []"
    by code_simp+
  have y: "fst (ensure_jsylvan making_host example_world) = Inr ()"
    "exists (snd (ensure_jsylvan making_host example_world))
       (ROOT making_host @ [''jsylvan'', ''src'', ''main'', ''resources'', ''linux-x64'',
         ''libsylvan-java.so''])"
    "exists (snd (ensure_jsylvan making_host example_world))
       (ROOT making_host @ [''jsylvan'', ''target'', ''sylvan-1.0.0-SNAPSHOT.jar''])"
    "history (snd (ensure_jsylvan making_host example_world)) \<noteq> []"
    by code_simp+
  note built = preparers_skip_when_built [of built_world example_host]
  note made = preparers_skip_when_built [of example_world making_host]
  note r1 = built [THEN conjunct1, THEN mp, OF e(1)]
  note r2 = built [THEN conjunct2, THEN conjunct1, THEN mp, OF e(2)]
  note r3 = built [THEN conjunct2, THEN conjunct2, THEN conjunct1, THEN mp, OF conjI [OF e(3,4)]]
  note r4 = built [THEN conjunct2, THEN conjunct2, THEN conjunct2, THEN conjunct1, THEN mp,
    OF conjI [OF e(5,6)]]
  note r5 = made [THEN conjunct2, THEN conjunct2, THEN conjunct2, THEN conjunct2, THEN conjunct1,
    THEN mp, OF conjI [OF s(1,2)]]
  note r6 = made [THEN conjunct2, THEN conjunct2, THEN conjunct2, THEN conjunct2, THEN conjunct2,
    THEN conjunct1, THEN mp, OF conjI [OF j(1,2)]]
  note r7 = made [THEN conjunct2, THEN conjunct2, THEN conjunct2, THEN conjunct2, THEN conjunct2,
    THEN conjunct2, THEN conjunct1, THEN mp, OF conjI [OF c(1) conjI [OF c(2,3)]]]
  note r8 = made [THEN conjunct2, THEN conjunct2, THEN conjunct2, THEN conjunct2, THEN conjunct2,
    THEN conjunct2, THEN conjunct2, THEN mp, OF conjI [OF y(1) conjI [OF y(2,3)]]]
  show ?thesis
    by (intro conjI) (rule e r1 r2 r3 r4 r5 r6 r7 r8 s(3) j(3) c(4) y(4))+
qed

theorem preparers_skip_when_built_counterexample:
  "exists (world_with (remove1 [''/'', ''repo'', ''cudd'', ''cudd'', ''.libs'', ''libcudd.a''] built_files))
     (ROOT example_host @ [''cudd'', ''bin'', ''nqueens_bdd'']) \<and>
   history (snd (ensure_cudd example_host
     (world_with (remove1 [''/'', ''repo'', ''cudd'', ''cudd'', ''.libs'', ''libcudd.a''] built_files)))) =
     [Build [''make'', ''-j4'', ''ACLOCAL=true'', ''AUTOMAKE=true'', ''AUTOCONF=true'',
             ''AUTOHEADER=true''] [''/'', ''repo'', ''cudd'']] \<and>
   exists built_world (ROOT example_host @ [''BuDDy'', ''examples'', ''queen'', ''queen'']) \<and>
   history (snd (ensure_buddy example_host built_world)) =
     [Build [''make'', ''-C'', ''examples/queen'', ''queen''] [''/'', ''repo'', ''BuDDy'']]"
  by code_simp

subsection \<open>Writing the table\<close>

lemma seq_ok: "f w = (Inr (), w') \<Longrightarrow> seq f g w = g w'"
  by (simp add: seq_def bind_def)

lemma seq_raise: "f w = (Inl e, w') \<Longrightarrow> seq f g w = (Inl e, w')"
  by (simp add: seq_def bind_def)




lemma dict_to_list_well_keyed:
  "well_keyed r \<Longrightarrow> dict_to_list r = Inr (map (map_of r) fieldnames)"
  by (auto simp: well_keyed_def dict_to_list_def list_all_iff list_ex_iff)

lemma file_write_done:
  assumes "file_write h p s w = (Inr (), w')" and "fs_nodes w p = Some (File c)"
  shows "fs_nodes w' p = Some (File (c @ s))"
  using assms by (auto simp: file_write_def split: option.splits)


lemma writerow_done:
  assumes "writerow h p r w = (Inr (), w')" and "fs_nodes w p = Some (File c)"
    and "well_keyed r"
  shows "fs_nodes w' p = Some (File (c @ row_line h r))"
  using assms
  by (simp add: writerow_def dict_to_list_well_keyed row_line_def file_write_done)


lemma seq_Inr:
  assumes "seq f g w = (Inr u, w')"
  obtains v where "f w = (Inr (), v)" and "g v = (Inr u, w')"
  using assms by (auto simp: seq_def bind_def split: prod.splits sum.splits)

lemma write_rows_done:
  assumes "write_rows h p rows w = (Inr (), w')" and "fs_nodes w p = Some (File c)"
    and "list_all well_keyed rows"
  shows "fs_nodes w' p = Some (File (c @ concat (map (row_line h) rows)))"
  using assms
proof (induction rows arbitrary: w c)
  case Nil
  then show ?case by (simp add: ok_def)
next
  case (Cons r rows)
  from Cons.prems(1) obtain v where
    r: "writerow h p r w = (Inr (), v)" and rows: "write_rows h p rows v = (Inr (), w')"
    by (auto elim: seq_Inr)
  from Cons.prems(3) have k: "well_keyed r" "list_all well_keyed rows" by simp_all
  from writerow_done [OF r Cons.prems(2) k(1)]
  have "fs_nodes v p = Some (File (c @ row_line h r))" .
  from Cons.IH [OF rows this k(2)] show ?case by simp
qed


lemma open_w_File:
  assumes "open_w p w = (Inr (), w')"
  shows "w' = w\<lparr>fs_nodes := (fs_nodes w)(p \<mapsto> File [])\<rparr>"
  using assms by (auto simp: open_w_def split: option.splits node.splits)

lemma table_written:
  assumes "open_w p w1 = (Inr (), w2)" and "writeheader h p w2 = (Inr (), w3)"
    and "write_rows h p rows w3 = (Inr (), w4)" and "list_all well_keyed rows"
  shows "fs_nodes w4 p = Some (File (table_text h rows))"
proof -
  have "fs_nodes w2 p = Some (File [])"
    using open_w_File [OF assms(1)] by simp
  with assms(2) have "fs_nodes w3 p = Some (File ([] @ csv_record fieldnames))"
    unfolding writeheader_def by (rule file_write_done)
  with assms(3) have "fs_nodes w4 p =
      Some (File (([] @ csv_record fieldnames) @ concat (map (row_line h) rows)))"
    using assms(4) by (rule write_rows_done)
  then show ?thesis by (simp add: table_text_def)
qed

lemma well_keyed_as_row: "well_keyed (as_row r)"
  by (simp add: well_keyed_def as_row_def fieldnames_def)





lemma seq_snd:
  "snd (seq f g w) = (case fst (f w) of Inl e \<Rightarrow> snd (f w) | Inr u \<Rightarrow> snd (g (snd (f w))))"
  by (simp add: seq_def bind_def split: prod.splits sum.splits)

lemma seq_keeps:
  assumes "\<And>w. P w \<Longrightarrow> P (snd (f w))" and "\<And>w. P w \<Longrightarrow> P (snd (g w))" and "P w"
  shows "P (snd (seq f g w))"
  using assms by (simp add: seq_snd split: sum.splits)

lemma seq_establishes:
  assumes "P (snd (f w))" and "\<And>w. P w \<Longrightarrow> P (snd (g w))"
  shows "P (snd (seq f g w))"
  using assms by (simp add: seq_snd split: sum.splits)

lemma open_w_keeps:
  "fs_nodes w q = Some Dir \<Longrightarrow> fs_nodes (snd (open_w p w)) q = Some Dir"
  "fs_nodes w q \<noteq> None \<Longrightarrow> fs_nodes (snd (open_w p w)) q \<noteq> None"
  by (auto simp: open_w_def split: option.splits node.splits)

lemma file_write_keeps:
  "fs_nodes w q = Some Dir \<Longrightarrow> fs_nodes (snd (file_write h p s w)) q = Some Dir"
  "fs_nodes w q \<noteq> None \<Longrightarrow> fs_nodes (snd (file_write h p s w)) q \<noteq> None"
  by (auto simp: file_write_def split: option.splits node.splits)

lemma writerow_keeps:
  "fs_nodes w q = Some Dir \<Longrightarrow> fs_nodes (snd (writerow h p r w)) q = Some Dir"
  "fs_nodes w q \<noteq> None \<Longrightarrow> fs_nodes (snd (writerow h p r w)) q \<noteq> None"
  by (cases "dict_to_list r"; simp add: writerow_def raise_def file_write_keeps)+

lemma write_rows_keeps_dir:
  "fs_nodes w q = Some Dir \<Longrightarrow> fs_nodes (snd (write_rows h p rows w)) q = Some Dir"
proof (induction rows arbitrary: w)
  case Nil
  then show ?case by (simp add: ok_def)
next
  case (Cons r rows)
  show ?case
    unfolding write_rows.simps
    by (rule seq_keeps [where P = "\<lambda>w. fs_nodes w q = Some Dir"])
       (simp_all add: writerow_keeps Cons)
qed

lemma write_rows_keeps_node:
  "fs_nodes w q \<noteq> None \<Longrightarrow> fs_nodes (snd (write_rows h p rows w)) q \<noteq> None"
proof (induction rows arbitrary: w)
  case Nil
  then show ?case by (simp add: ok_def)
next
  case (Cons r rows)
  show ?case
    unfolding write_rows.simps
    by (rule seq_keeps [where P = "\<lambda>w. fs_nodes w q \<noteq> None"])
       (simp_all add: writerow_keeps Cons)
qed

lemma closing_keeps:
  "snd ((\<lambda>w. case relative_to output_path root of Inl e \<Rightarrow> (Inl e, w) | Inr x \<Rightarrow> (Inr (), w)) w) = w"
  by (simp split: sum.splits)

lemma written_keeps_dir:
  assumes "fs_nodes w q = Some Dir"
  shows "fs_nodes (snd (seq (writeheader h p) (seq (write_rows h p rows)
    (\<lambda>w. case relative_to p (ROOT h) of Inl e \<Rightarrow> (Inl e, w) | Inr x \<Rightarrow> (Inr (), w))) w)) q = Some Dir"
  using assms
  by (intro seq_keeps [where P = "\<lambda>w. fs_nodes w q = Some Dir"])
     (simp_all add: writeheader_def file_write_keeps write_rows_keeps_dir closing_keeps)

lemma written_keeps_node:
  assumes "fs_nodes w q \<noteq> None"
  shows "fs_nodes (snd (seq (writeheader h p) (seq (write_rows h p rows)
    (\<lambda>w. case relative_to p (ROOT h) of Inl e \<Rightarrow> (Inl e, w) | Inr x \<Rightarrow> (Inr (), w))) w)) q \<noteq> None"
  using assms
  by (intro seq_keeps [where P = "\<lambda>w. fs_nodes w q \<noteq> None"])
     (simp_all add: writeheader_def file_write_keeps write_rows_keeps_node closing_keeps)

lemma mkdir_results_dir:
  assumes "ROOT h \<noteq> []" and "is_dir w (ROOT h)"
    and "\<not> exists w (RESULTS_DIR h) \<or> is_dir w (RESULTS_DIR h)"
  shows "fst (mkdir True (RESULTS_DIR h) w) = Inr ()"
    and "fs_nodes (snd (mkdir True (RESULTS_DIR h) w)) (RESULTS_DIR h) = Some Dir"
proof -
  have p: "parent (RESULTS_DIR h) = ROOT h"
    using assms(1) by (cases "ROOT h") (simp_all add: parent_def RESULTS_DIR_def)
  from assms(2) have r: "fs_nodes w (ROOT h) = Some Dir" by (simp add: is_dir_def)
  from assms(3) consider "fs_nodes w (RESULTS_DIR h) = None" | "fs_nodes w (RESULTS_DIR h) = Some Dir"
    by (auto simp: exists_def is_dir_def)
  then show "fst (mkdir True (RESULTS_DIR h) w) = Inr ()"
    and "fs_nodes (snd (mkdir True (RESULTS_DIR h) w)) (RESULTS_DIR h) = Some Dir"
    by (cases; simp add: mkdir_def os_mkdir_def p r is_dir_def)+
qed

lemma open_w_in_dir:
  assumes "fs_nodes w d = Some Dir" and "d \<noteq> []"
  shows "fs_nodes (snd (open_w (d @ [f]) w)) (d @ [f]) \<noteq> None"
proof -
  have "parent (d @ [f]) = d" using assms(2) by (cases d) (simp_all add: parent_def)
  then show ?thesis using assms(1)
    by (simp add: open_w_def split: option.splits node.splits)
qed

text \<open>
  C10. Whatever the rows and the output path, \<^verbatim>\<open>write_results\<close> first makes the
  directory \<^verbatim>\<open>results\<close> under the root: wherever that directory can be made (the
  root is a directory, and nothing but a directory stands at \<^verbatim>\<open>results\<close>), it is a
  directory after the call, whether the call then succeeds or raises, and also for
  an output path elsewhere.  The directory is made before the file is opened: a
  file directly inside it exists after the call even when the directory did not
  exist before.
\<close>

theorem write_results_makes_results_dir:
  assumes "ROOT h \<noteq> []" and "is_dir w (ROOT h)"
    and "\<not> exists w (RESULTS_DIR h) \<or> is_dir w (RESULTS_DIR h)"
  shows "is_dir (snd (write_results h rows output_path w)) (RESULTS_DIR h) \<and>
    exists (snd (write_results h rows (RESULTS_DIR h @ [f]) w)) (RESULTS_DIR h @ [f])"
proof
  let ?w1 = "snd (mkdir True (RESULTS_DIR h) w)"
  have m: "mkdir True (RESULTS_DIR h) w = (Inr (), ?w1)"
    using mkdir_results_dir(1) [OF assms] by (cases "mkdir True (RESULTS_DIR h) w") simp
  have d: "fs_nodes ?w1 (RESULTS_DIR h) = Some Dir"
    using assms by (rule mkdir_results_dir(2))
  have split: "\<And>p. write_results h rows p w =
      seq (open_w p) (seq (writeheader h p) (seq (write_rows h p rows)
        (\<lambda>w. case relative_to p (ROOT h) of Inl e \<Rightarrow> (Inl e, w) | Inr x \<Rightarrow> (Inr (), w)))) ?w1"
    by (simp add: write_results_def seq_ok [where f = "mkdir True (RESULTS_DIR h)", OF m])
  show "is_dir (snd (write_results h rows output_path w)) (RESULTS_DIR h)"
    unfolding split is_dir_def
    by (rule seq_keeps [where P = "\<lambda>w. fs_nodes w (RESULTS_DIR h) = Some Dir"])
       (simp_all add: open_w_keeps written_keeps_dir d)
  have "RESULTS_DIR h \<noteq> []" by (simp add: RESULTS_DIR_def)
  with d have o: "fs_nodes (snd (open_w (RESULTS_DIR h @ [f]) ?w1)) (RESULTS_DIR h @ [f]) \<noteq> None"
    by (rule open_w_in_dir)
  show "exists (snd (write_results h rows (RESULTS_DIR h @ [f]) w)) (RESULTS_DIR h @ [f])"
    unfolding split exists_def
    using o by (rule seq_establishes [where P = "\<lambda>w. fs_nodes w (RESULTS_DIR h @ [f]) \<noteq> None"])
      (rule written_keeps_node)
qed

lemma write_results_mkdir_fails:
  assumes "fst (mkdir True (RESULTS_DIR h) w) = Inl e"
  shows "write_results h rows output_path w = (Inl e, w)"
proof -
  have "mkdir True (RESULTS_DIR h) w = (Inl e, w)"
    using assms by (auto simp: mkdir_def os_mkdir_def split: option.splits node.splits error.splits if_splits)
  then show ?thesis
    by (simp add: write_results_def seq_raise [where f = "mkdir True (RESULTS_DIR h)"])
qed

theorem write_results_makes_results_dir_witness:
  "ROOT example_host \<noteq> [] \<and> is_dir example_world (ROOT example_host) \<and>
   \<not> exists example_world (RESULTS_DIR example_host) \<and>
   is_dir (snd (write_results example_host [example_row ''BuDDy'' 4] [''/'', ''tmp'', ''out.csv'']
                  example_world)) (RESULTS_DIR example_host) \<and>
   fst (write_results example_host [example_row ''BuDDy'' 4] [''/'', ''tmp'', ''out.csv'']
          example_world) = Inl (FileNotFoundError [''/'', ''tmp'', ''out.csv'']) \<and>
   exists (snd (write_results example_host [example_row ''BuDDy'' 4]
                  (RESULTS_DIR example_host @ [''nqueens_metrics.csv'']) example_world))
     (RESULTS_DIR example_host @ [''nqueens_metrics.csv''])"
proof -
  have a: "ROOT example_host \<noteq> []" by code_simp
  have b: "is_dir example_world (ROOT example_host)" by code_simp
  have c: "\<not> exists example_world (RESULTS_DIR example_host)" by code_simp
  then have c': "\<not> exists example_world (RESULTS_DIR example_host) \<or>
      is_dir example_world (RESULTS_DIR example_host)" by simp
  have e: "fst (write_results example_host [example_row ''BuDDy'' 4] [''/'', ''tmp'', ''out.csv'']
      example_world) = Inl (FileNotFoundError [''/'', ''tmp'', ''out.csv''])" by code_simp
  from write_results_makes_results_dir [OF a b c', of "[example_row ''BuDDy'' 4]"
      "[''/'', ''tmp'', ''out.csv'']" "''nqueens_metrics.csv''"] a b c e
  show ?thesis by blast
qed

subsection \<open>The sweep\<close>

lemma bind_assoc: "bind (bind f g) k = bind f (\<lambda>x. bind (g x) k)"
  by (rule ext) (simp add: bind_def split: prod.splits sum.splits)

lemma bind_ok: "bind (ok x) g = g x"
  by (rule ext) (simp add: bind_def ok_def)

lemma run_trials_append:
  "run_trials h (ps @ qs) workers rows =
   bind (run_trials h ps workers rows) (\<lambda>rows'. run_trials h qs workers rows')"
  by (induction ps arbitrary: rows) (auto simp: bind_ok bind_assoc)

lemma run_size_trials:
  "run_size h impls size' workers rows = run_trials h (map (Pair size') impls) workers rows"
  by (induction impls arbitrary: rows) simp_all

lemma run_sizes_trials:
  "run_sizes h impls sizes workers rows = run_trials h (List.product sizes impls) workers rows"
proof (induction sizes arbitrary: rows)
  case Nil
  then show ?case by simp
next
  case (Cons size' sizes)
  have "run_sizes h impls sizes workers = run_trials h (List.product sizes impls) workers"
    by (rule ext) (rule Cons.IH)
  then show ?case by (simp add: run_size_trials run_trials_append)
qed

lemma prepare_all_foldr:
  "prepare_all impls = foldr (\<lambda>impl k. seq (ensure_ready impl) k) impls (ok ())"
  by (induction impls) simp_all

lemma execute_with_metrics_history:
  "history (snd (execute_with_metrics h cmd cwd env w)) = history w @ [Measure cmd cwd]"
  by (simp add: execute_with_metrics_def Let_def split: prod.splits option.splits)

lemma bind_snd_Inr:
  assumes "bind f g w = (Inr y, w')"
  shows "\<exists>x w1. f w = (Inr x, w1) \<and> g x w1 = (Inr y, w')"
  using assms by (auto simp: bind_def split: prod.splits sum.splits)

lemma run_implementation_Inr:
  assumes "run_implementation h impl size' workers w = (Inr r, w')"
  shows "row_key r = trial_key (size', impl)"
    and "history w' = history w @ [trial_event workers (size', impl)]"
proof -
  let ?cmd = "command_for impl size' workers"
  from assms obtain res w1 where
    e: "execute_with_metrics h ?cmd (workdir impl) (base_env h impl) w = (Inr res, w1)" and
    k: "(\<lambda>(result, result_cmd).
             if returncode result \<noteq> 0
             then raise (CalledProcessError (returncode result) result_cmd
                          (Some (stdout_text result)) (Some (stderr_text result)))
             else
               (case parse_metrics (host_float h) (stdout_text result) of
                  Inl e \<Rightarrow> raise e
                | Inr (measured_size, solutions, nodes) \<Rightarrow>
                    if measured_size \<noteq> size'
                    then raise (RuntimeError (ReportedSize (name impl) measured_size size'))
                    else
                      ok [(''implementation'', StrCell (name impl)),
                          (''language'', StrCell (language impl)),
                          (''size'', IntCell size'),
                          (''time_sec'', FloatCell (elapsed result)),
                          (''max_rss_kb'', IntCell (max_rss result)),
                          (''nodes'', IntCell nodes),
                          (''solutions'', FloatCell solutions)])) res w1 = (Inr r, w')"
    unfolding run_implementation_def Let_def by (auto dest!: bind_snd_Inr)
  from k have "w' = w1" and r: "row_key r = trial_key (size', impl)"
    by (auto simp: raise_def ok_def row_key_def trial_key_def
        split: prod.splits if_splits sum.splits)
  show "row_key r = trial_key (size', impl)" by (rule r)
  have "history w1 = history w @ [Measure ?cmd (workdir impl)]"
    using execute_with_metrics_history [of h ?cmd "workdir impl" "base_env h impl" w] e by simp
  then show "history w' = history w @ [trial_event workers (size', impl)]"
    using \<open>w' = w1\<close> by (simp add: trial_event_def)
qed

lemma run_trials_Inr:
  assumes "run_trials h ts workers rows w = (Inr rows', w')"
  shows "\<exists>new. rows' = rows @ new \<and> map row_key new = map trial_key ts \<and>
    history w' = history w @ map (trial_event workers) ts"
  using assms
proof (induction ts arbitrary: rows w)
  case Nil
  then show ?case by (simp add: ok_def)
next
  case (Cons t ts)
  obtain size' impl where t: "t = (size', impl)" by (cases t)
  from Cons.prems obtain r w1 where
    r: "run_implementation h impl size' workers w = (Inr r, w1)" and
    rest: "run_trials h ts workers (rows @ [r]) w1 = (Inr rows', w')"
    unfolding t by (auto dest!: bind_snd_Inr)
  from Cons.IH [OF rest] obtain new where
    new: "rows' = (rows @ [r]) @ new" "map row_key new = map trial_key ts"
      "history w' = history w1 @ map (trial_event workers) ts" by blast
  from run_implementation_Inr [OF r] new
  have "rows' = rows @ (r # new) \<and> map row_key (r # new) = map trial_key (t # ts) \<and>
    history w' = history w @ map (trial_event workers) (t # ts)"
    by (simp add: t)
  then show ?case by blast
qed

text \<open>
  C9. The sweep is the preparers of the implementations, each once and in the order
  of the list, followed by one trial per (size, implementation) pair in the order
  of \<open>List.product\<close>, sizes outermost and implementations in list order, followed
  by the writing of the rows; this is an equation between computations, so it
  holds for every list of sizes and also where a step raises and ends the sweep.
  When the trials return, the rows are one per trial in that order, each with the
  name and the size of its trial, and the measured processes were launched in that
  order.
\<close>

theorem sweep_order:
  "sweep h impls a =
     seq (foldr (\<lambda>impl k. seq (ensure_ready impl) k) impls (ok ()))
       (bind (run_trials h (List.product (arg_sizes a) impls) (arg_workers a) [])
          (\<lambda>rows. write_results h rows (arg_output a))) \<and>
   (\<forall>rows w1 w2.
      run_trials h (List.product (arg_sizes a) impls) (arg_workers a) [] w1 = (Inr rows, w2) \<longrightarrow>
      map row_key rows = map trial_key (List.product (arg_sizes a) impls) \<and>
      history w2 =
        history w1 @ map (trial_event (arg_workers a)) (List.product (arg_sizes a) impls))"
proof (intro conjI allI impI)
  show "sweep h impls a =
     seq (foldr (\<lambda>impl k. seq (ensure_ready impl) k) impls (ok ()))
       (bind (run_trials h (List.product (arg_sizes a) impls) (arg_workers a) [])
          (\<lambda>rows. write_results h rows (arg_output a)))"
    by (simp add: sweep_def prepare_all_foldr run_sizes_trials)
next
  fix rows w1 w2
  assume "run_trials h (List.product (arg_sizes a) impls) (arg_workers a) [] w1 = (Inr rows, w2)"
  from run_trials_Inr [OF this]
  show "map row_key rows = map trial_key (List.product (arg_sizes a) impls)"
    and "history w2 =
      history w1 @ map (trial_event (arg_workers a)) (List.product (arg_sizes a) impls)"
    by auto
qed

theorem sweep_order_witness:
  "fst (sweep example_host [building_impl ''A'', building_impl ''B''] example_args example_world) =
     Inr () \<and>
   history (snd (sweep example_host [building_impl ''A'', building_impl ''B''] example_args
                   example_world)) =
     [Build [''build-A''] [''/'', ''repo''], Build [''build-B''] [''/'', ''repo''],
      Measure [''A'', ''4''] [''/'', ''repo''], Measure [''B'', ''4''] [''/'', ''repo''],
      Measure [''A'', ''5''] [''/'', ''repo''], Measure [''B'', ''5''] [''/'', ''repo'']] \<and>
   fs_nodes (snd (sweep example_host [building_impl ''A'', building_impl ''B''] example_args
                    example_world)) [''/'', ''repo'', ''results'', ''nqueens_metrics.csv''] =
     Some (File (''implementation,language,size,time_sec,max_rss_kb,nodes,solutions'' @
                 [CHR 0x0D, CHR 0x0A] @ ''A,C,4,0.25,1024,10,2'' @ [CHR 0x0D, CHR 0x0A] @
                 ''B,C,4,0.25,1024,10,2'' @ [CHR 0x0D, CHR 0x0A] @
                 ''A,C,5,0.25,1024,10,2'' @ [CHR 0x0D, CHR 0x0A] @
                 ''B,C,5,0.25,1024,10,2'' @ [CHR 0x0D, CHR 0x0A])) \<and>
   fst (run_trials example_host
          (List.product (arg_sizes example_args) [building_impl ''A'', building_impl ''B''])
          (arg_workers example_args) [] example_world) =
     Inr [example_row ''A'' 4, example_row ''B'' 4, example_row ''A'' 5, example_row ''B'' 5] \<and>
   map row_key [example_row ''A'' 4, example_row ''B'' 4, example_row ''A'' 5, example_row ''B'' 5] =
     map trial_key
       (List.product (arg_sizes example_args) [building_impl ''A'', building_impl ''B''])"
proof -
  let ?impls = "[building_impl ''A'', building_impl ''B'']"
  let ?rows = "[example_row ''A'' 4, example_row ''B'' 4, example_row ''A'' 5, example_row ''B'' 5]"
  let ?run = "run_trials example_host (List.product (arg_sizes example_args) ?impls)
      (arg_workers example_args) [] example_world"
  have t: "fst ?run = Inr ?rows" by code_simp
  then have "?run = (Inr ?rows, snd ?run)" by (metis prod.collapse)
  with sweep_order [of example_host ?impls example_args]
  have keys: "map row_key ?rows = map trial_key (List.product (arg_sizes example_args) ?impls)"
    by blast
  let ?flat = "seq (foldr (\<lambda>impl k. seq (ensure_ready impl) k) ?impls (ok ()))
       (bind (run_trials example_host (List.product (arg_sizes example_args) ?impls)
                (arg_workers example_args) [])
          (\<lambda>rows. write_results example_host rows (arg_output example_args)))"
  have eq: "sweep example_host ?impls example_args = ?flat"
    using sweep_order [of example_host ?impls example_args] by blast
  have "fst (?flat example_world) = Inr ()" by code_simp
  moreover have "history (snd (?flat example_world)) =
     [Build [''build-A''] [''/'', ''repo''], Build [''build-B''] [''/'', ''repo''],
      Measure [''A'', ''4''] [''/'', ''repo''], Measure [''B'', ''4''] [''/'', ''repo''],
      Measure [''A'', ''5''] [''/'', ''repo''], Measure [''B'', ''5''] [''/'', ''repo'']]"
    by code_simp
  moreover have "fs_nodes (snd (?flat example_world))
      [''/'', ''repo'', ''results'', ''nqueens_metrics.csv''] =
     Some (File (''implementation,language,size,time_sec,max_rss_kb,nodes,solutions'' @
                 [CHR 0x0D, CHR 0x0A] @ ''A,C,4,0.25,1024,10,2'' @ [CHR 0x0D, CHR 0x0A] @
                 ''B,C,4,0.25,1024,10,2'' @ [CHR 0x0D, CHR 0x0A] @
                 ''A,C,5,0.25,1024,10,2'' @ [CHR 0x0D, CHR 0x0A] @
                 ''B,C,5,0.25,1024,10,2'' @ [CHR 0x0D, CHR 0x0A]))"
    by code_simp
  ultimately show ?thesis unfolding eq using t keys by blast
qed

subsection \<open>Reading the table back\<close>

lemma un_Cons_plain:
  "c \<noteq> CHR 0x0D \<Longrightarrow> universal_newlines (c # b) = c # universal_newlines b"
  by (cases b) simp_all

lemma un_plain: "CHR 0x0D \<notin> set s \<Longrightarrow> universal_newlines s = s"
  by (induction s) (auto simp: un_Cons_plain)

lemma un_append_char:
  "c \<noteq> CHR 0x0A \<Longrightarrow> c \<noteq> CHR 0x0D \<Longrightarrow>
   universal_newlines (a @ c # b) = universal_newlines a @ c # universal_newlines b"
  by (induction a rule: universal_newlines.induct) (simp_all add: un_Cons_plain)

lemma un_crlf:
  "universal_newlines (a @ [CHR 0x0D, CHR 0x0A] @ b) =
   universal_newlines a @ CHR 0x0A # universal_newlines b"
  by (induction a rule: universal_newlines.induct) simp_all

lemma double_quotes_Cons:
  "double_quotes (c # s) = (if c = CHR 0x22 then [c, c] else [c]) @ double_quotes s"
  by (simp add: double_quotes_def)

lemma double_quotes_Nil: "double_quotes [] = []"
  by (simp add: double_quotes_def)

lemma un_double_quotes:
  "universal_newlines (double_quotes s) = double_quotes (universal_newlines s)"
proof (induction s rule: universal_newlines.induct)
  case 1
  then show ?case by (simp add: double_quotes_Nil)
next
  case (2 c)
  then show ?case by (simp add: double_quotes_Cons double_quotes_Nil)
next
  case (3 c d cs)
  then show ?case
    by (cases "c = CHR 0x0D"; cases "d = CHR 0x0A"; cases "d = CHR 0x22"; cases "c = CHR 0x22";
        simp add: double_quotes_Cons un_Cons_plain)
qed

lemma un_no_CR: "CHR 0x0D \<notin> set (universal_newlines s)"
  by (induction s rule: universal_newlines.induct) auto

lemma eol_marks_append: "eol_marks (a @ b) = eol_marks a @ eol_marks b"
  by (induction a) simp_all

lemma eol_marks_plain: "CHR 0x0A \<notin> set s \<Longrightarrow> eol_marks s = map Some s"
  by (induction s) auto

lemma lines_eol_marks:
  assumes "t = [] \<longrightarrow> cur = []" and "t \<noteq> [] \<longrightarrow> last t = CHR 0x0A"
  shows "concat (map (\<lambda>l. map Some l @ [None]) (readlines_from cur t)) =
    map Some cur @ eol_marks t"
  using assms
proof (induction t arbitrary: cur)
  case Nil
  then show ?case by simp
next
  case (Cons c t)
  show ?case
  proof (cases "t = []")
    case True
    with Cons.prems show ?thesis by simp
  next
    case False
    with Cons.prems have "last t = CHR 0x0A" by simp
    with False have "concat (map (\<lambda>l. map Some l @ [None]) (readlines_from cur' t)) =
        map Some cur' @ eol_marks t" for cur'
      by (intro Cons.IH) simp_all
    then show ?thesis by simp
  qed
qed

lemma readlines_eol_marks:
  assumes "t \<noteq> [] \<longrightarrow> last t = CHR 0x0A"
  shows "concat (map (\<lambda>l. map Some l @ [None]) (readlines t)) = eol_marks t"
  using lines_eol_marks [of t "[]"] assms by (simp add: readlines_def)

lemma records_of_Some:
  "records_of r (Some c # xs) =
   (case process_char r (Some c) of Inl e \<Rightarrow> Inl e | Inr r' \<Rightarrow> records_of r' xs)"
  by (simp split: sum.splits)

lemma records_of_line:
  "records_of r (map Some l @ None # rest) =
   (case feed r (map Some l @ [None]) of
      Inl e \<Rightarrow> Inl e
    | Inr r' \<Rightarrow>
        if rstate r' \<noteq> START_RECORD then records_of r' rest
        else (case records_of parse_reset rest of
                Inl e \<Rightarrow> Inl e
              | Inr rs \<Rightarrow> Inr (rfields r' # rs)))"
proof (induction l arbitrary: r)
  case Nil
  then show ?case by (simp split: sum.splits)
next
  case (Cons c l)
  then show ?case by (simp split: sum.splits)
qed

lemma csv_rows_records_of:
  "csv_rows r ls = records_of r (concat (map (\<lambda>l. map Some l @ [None]) ls))"
proof (induction ls arbitrary: r)
  case Nil
  then show ?case by simp
next
  case (Cons l ls)
  have "records_of r (concat (map (\<lambda>l. map Some l @ [None]) (l # ls))) =
    records_of r (map Some l @ None # concat (map (\<lambda>l. map Some l @ [None]) ls))"
    by simp
  also have "\<dots> = csv_rows r (l # ls)"
    unfolding records_of_line by (simp add: Cons.IH split: sum.splits)
  finally show ?case by simp
qed

lemma csv_rows_text:
  assumes "t \<noteq> [] \<longrightarrow> last t = CHR 0x0A"
  shows "csv_rows r (readlines t) = records_of r (eol_marks t)"
  by (simp add: csv_rows_records_of readlines_eol_marks [OF assms])

lemmas reader_defs =
  process_char_def start_field_def save_field_def add_char_def is_newline_def

lemma in_field_chars:
  assumes "\<not> list_ex special s"
  shows "records_of \<lparr>rstate = IN_FIELD, rfield = f, rfields = F\<rparr> (map Some s @ rest) =
    records_of \<lparr>rstate = IN_FIELD, rfield = f @ s, rfields = F\<rparr> rest"
  using assms
proof (induction s arbitrary: f)
  case Nil
  then show ?case by simp
next
  case (Cons c s)
  from Cons.prems have c: "c \<noteq> CHR '',''" "c \<noteq> CHR 0x0A" "c \<noteq> CHR 0x0D" and s: "\<not> list_ex special s"
    by (auto simp: list_ex_iff special_def)
  have "records_of \<lparr>rstate = IN_FIELD, rfield = f, rfields = F\<rparr> (map Some (c # s) @ rest) =
    records_of \<lparr>rstate = IN_FIELD, rfield = f @ [c], rfields = F\<rparr> (map Some s @ rest)"
    using c by (simp add: reader_defs)
  then show ?case using Cons.IH [OF s, of "f @ [c]"] by simp
qed

lemma in_quoted_chars:
  "records_of \<lparr>rstate = IN_QUOTED_FIELD, rfield = f, rfields = F\<rparr>
     (eol_marks (double_quotes t) @ rest) =
   records_of \<lparr>rstate = IN_QUOTED_FIELD, rfield = f @ t, rfields = F\<rparr> rest"
proof (induction t arbitrary: f)
  case Nil
  then show ?case by (simp add: double_quotes_Nil)
next
  case (Cons c t)
  have "records_of \<lparr>rstate = IN_QUOTED_FIELD, rfield = f, rfields = F\<rparr>
     (eol_marks (double_quotes (c # t)) @ rest) =
    records_of \<lparr>rstate = IN_QUOTED_FIELD, rfield = f @ [c], rfields = F\<rparr>
     (eol_marks (double_quotes t) @ rest)"
    by (cases "c = CHR 0x22"; cases "c = CHR 0x0A";
        simp add: double_quotes_Cons eol_marks_append reader_defs)
  then show ?case using Cons.IH [of "f @ [c]"] by simp
qed

lemma un_quote_field:
  "universal_newlines (quote_field s) =
   (if list_ex special s then CHR 0x22 # double_quotes (universal_newlines s) @ [CHR 0x22]
    else s)"
proof (cases "list_ex special s")
  case True
  have "universal_newlines (CHR 0x22 # double_quotes s @ [CHR 0x22]) =
    CHR 0x22 # universal_newlines (double_quotes s @ CHR 0x22 # [])"
    by (rule un_Cons_plain) simp
  also have "universal_newlines (double_quotes s @ CHR 0x22 # []) =
    universal_newlines (double_quotes s) @ CHR 0x22 # universal_newlines []"
    by (rule un_append_char) simp_all
  finally show ?thesis using True by (simp add: quote_field_def un_double_quotes)
next
  case False
  then have "CHR 0x0D \<notin> set s" by (auto simp: list_ex_iff special_def)
  then show ?thesis using False by (simp add: quote_field_def un_plain)
qed

lemma plain_field_marks:
  assumes "\<not> list_ex special s"
  shows "eol_marks s = map Some s"
  using assms by (intro eol_marks_plain) (auto simp: list_ex_iff special_def)

lemma pc_start:
  assumes "st = START_RECORD \<or> st = START_FIELD"
  shows "process_char \<lparr>rstate = st, rfield = [], rfields = F\<rparr> (Some CHR 0x22) =
      Inr \<lparr>rstate = IN_QUOTED_FIELD, rfield = [], rfields = F\<rparr>"
    and "process_char \<lparr>rstate = st, rfield = [], rfields = F\<rparr> (Some CHR '','') =
      Inr \<lparr>rstate = START_FIELD, rfield = [], rfields = F @ [[]]\<rparr>"
    and "\<not> special c \<Longrightarrow> process_char \<lparr>rstate = st, rfield = [], rfields = F\<rparr> (Some c) =
      Inr \<lparr>rstate = IN_FIELD, rfield = [c], rfields = F\<rparr>"
  using assms by (auto simp: reader_defs special_def)

lemma pc_in_field:
  "process_char \<lparr>rstate = IN_FIELD, rfield = f, rfields = F\<rparr> (Some CHR '','') =
     Inr \<lparr>rstate = START_FIELD, rfield = [], rfields = F @ [f]\<rparr>"
  "process_char \<lparr>rstate = IN_FIELD, rfield = f, rfields = F\<rparr> (Some CHR 0x0A) =
     Inr \<lparr>rstate = EAT_CRNL, rfield = [], rfields = F @ [f]\<rparr>"
  by (simp_all add: reader_defs)

lemma pc_quoted:
  "process_char \<lparr>rstate = IN_QUOTED_FIELD, rfield = f, rfields = F\<rparr> (Some CHR 0x22) =
     Inr \<lparr>rstate = QUOTE_IN_QUOTED_FIELD, rfield = f, rfields = F\<rparr>"
  "process_char \<lparr>rstate = QUOTE_IN_QUOTED_FIELD, rfield = f, rfields = F\<rparr> (Some CHR '','') =
     Inr \<lparr>rstate = START_FIELD, rfield = [], rfields = F @ [f]\<rparr>"
  "process_char \<lparr>rstate = QUOTE_IN_QUOTED_FIELD, rfield = f, rfields = F\<rparr> (Some CHR 0x0A) =
     Inr \<lparr>rstate = EAT_CRNL, rfield = [], rfields = F @ [f]\<rparr>"
  by (simp_all add: reader_defs)

lemma pc_end:
  "process_char \<lparr>rstate = START_FIELD, rfield = [], rfields = F\<rparr> (Some CHR 0x0A) =
     Inr \<lparr>rstate = EAT_CRNL, rfield = [], rfields = F @ [[]]\<rparr>"
  "process_char \<lparr>rstate = EAT_CRNL, rfield = f, rfields = F\<rparr> None =
     Inr \<lparr>rstate = START_RECORD, rfield = f, rfields = F\<rparr>"
  by (simp_all add: reader_defs)

lemma records_of_step:
  assumes "process_char r (Some c) = Inr r'"
  shows "records_of r (Some c # xs) = records_of r' xs"
  using assms by simp

lemma records_of_cut:
  assumes "process_char r None = Inr r'" and "rstate r' = START_RECORD"
  shows "records_of r (None # xs) =
    (case records_of parse_reset xs of Inl e \<Rightarrow> Inl e | Inr rs \<Rightarrow> Inr (rfields r' # rs))"
  using assms by simp

lemma end_of_record:
  "records_of \<lparr>rstate = EAT_CRNL, rfield = [], rfields = F\<rparr> (None # rest) =
   (case records_of parse_reset rest of Inl e \<Rightarrow> Inl e | Inr rs \<Rightarrow> Inr (F # rs))"
  by (simp add: pc_end(2) split: sum.splits)

declare records_of.simps [simp del]

lemma field_then_comma:
  assumes "st = START_RECORD \<or> st = START_FIELD"
  shows "records_of \<lparr>rstate = st, rfield = [], rfields = F\<rparr>
     (eol_marks (universal_newlines (quote_field s)) @ Some CHR '','' # rest) =
   records_of \<lparr>rstate = START_FIELD, rfield = [], rfields = F @ [universal_newlines s]\<rparr> rest"
proof (cases "list_ex special s")
  case True
  then have "eol_marks (universal_newlines (quote_field s)) @ Some CHR '','' # rest =
    Some CHR 0x22 # eol_marks (double_quotes (universal_newlines s)) @
      Some CHR 0x22 # Some CHR '','' # rest"
    by (simp add: un_quote_field eol_marks_append)
  then have "records_of \<lparr>rstate = st, rfield = [], rfields = F\<rparr>
     (eol_marks (universal_newlines (quote_field s)) @ Some CHR '','' # rest) =
    records_of \<lparr>rstate = IN_QUOTED_FIELD, rfield = [], rfields = F\<rparr>
     (eol_marks (double_quotes (universal_newlines s)) @ Some CHR 0x22 # Some CHR '','' # rest)"
    by (simp only: records_of_step [OF pc_start(1) [OF assms]])
  also have "\<dots> = records_of \<lparr>rstate = IN_QUOTED_FIELD, rfield = [] @ universal_newlines s, rfields = F\<rparr>
     (Some CHR 0x22 # Some CHR '','' # rest)"
    by (rule in_quoted_chars)
  also have "\<dots> = records_of \<lparr>rstate = START_FIELD, rfield = [], rfields = F @ [universal_newlines s]\<rparr> rest"
    by (simp only: records_of_step [OF pc_quoted(1)] records_of_step [OF pc_quoted(2)] append_Nil)
  finally show ?thesis .
next
  case False
  then have cr: "CHR 0x0D \<notin> set s" by (auto simp: list_ex_iff special_def)
  have u: "universal_newlines (quote_field s) = s" "universal_newlines s = s"
    using False by (simp_all only: un_quote_field un_plain [OF cr] if_False)
  show ?thesis
  proof (cases s)
    case Nil
    have "records_of \<lparr>rstate = st, rfield = [], rfields = F\<rparr> (Some CHR '','' # rest) =
      records_of \<lparr>rstate = START_FIELD, rfield = [], rfields = F @ [[]]\<rparr> rest"
      by (rule records_of_step [OF pc_start(2) [OF assms]])
    then show ?thesis unfolding u by (simp add: Nil)
  next
    case (Cons c s')
    with False have c: "\<not> special c" and s': "\<not> list_ex special s'" by simp_all
    have "eol_marks s = Some c # map Some s'"
      using plain_field_marks [OF False] by (simp add: Cons)
    then have "records_of \<lparr>rstate = st, rfield = [], rfields = F\<rparr>
       (eol_marks s @ Some CHR '','' # rest) =
      records_of \<lparr>rstate = IN_FIELD, rfield = [c], rfields = F\<rparr>
       (map Some s' @ Some CHR '','' # rest)"
      using records_of_step [OF pc_start(3) [OF assms c]] by simp
    also have "\<dots> = records_of \<lparr>rstate = IN_FIELD, rfield = [c] @ s', rfields = F\<rparr>
       (Some CHR '','' # rest)"
      using s' by (rule in_field_chars)
    also have "\<dots> = records_of \<lparr>rstate = START_FIELD, rfield = [], rfields = F @ [s]\<rparr> rest"
      by (simp only: records_of_step [OF pc_in_field(1)] Cons append_Cons append_Nil)
    finally show ?thesis by (simp add: u)
  qed
qed

lemma field_then_eol:
  "records_of \<lparr>rstate = START_FIELD, rfield = [], rfields = F\<rparr>
     (eol_marks (universal_newlines (quote_field s)) @ Some CHR 0x0A # None # rest) =
   (case records_of parse_reset rest of
      Inl e \<Rightarrow> Inl e
    | Inr rs \<Rightarrow> Inr ((F @ [universal_newlines s]) # rs))"
proof (cases "list_ex special s")
  case True
  have st: "START_FIELD = START_RECORD \<or> START_FIELD = START_FIELD" by simp
  from True have "eol_marks (universal_newlines (quote_field s)) @ Some CHR 0x0A # None # rest =
    Some CHR 0x22 # eol_marks (double_quotes (universal_newlines s)) @
      Some CHR 0x22 # Some CHR 0x0A # None # rest"
    by (simp add: un_quote_field eol_marks_append)
  then have "records_of \<lparr>rstate = START_FIELD, rfield = [], rfields = F\<rparr>
     (eol_marks (universal_newlines (quote_field s)) @ Some CHR 0x0A # None # rest) =
    records_of \<lparr>rstate = IN_QUOTED_FIELD, rfield = [], rfields = F\<rparr>
     (eol_marks (double_quotes (universal_newlines s)) @
      Some CHR 0x22 # Some CHR 0x0A # None # rest)"
    by (simp only: records_of_step [OF pc_start(1) [OF st]])
  also have "\<dots> = records_of \<lparr>rstate = IN_QUOTED_FIELD, rfield = [] @ universal_newlines s, rfields = F\<rparr>
     (Some CHR 0x22 # Some CHR 0x0A # None # rest)"
    by (rule in_quoted_chars)
  also have "\<dots> = records_of \<lparr>rstate = EAT_CRNL, rfield = [], rfields = F @ [universal_newlines s]\<rparr>
     (None # rest)"
    by (simp only: records_of_step [OF pc_quoted(1)] records_of_step [OF pc_quoted(3)] append_Nil)
  finally show ?thesis by (simp only: end_of_record)
next
  case False
  have st: "START_FIELD = START_RECORD \<or> START_FIELD = START_FIELD" by simp
  from False have cr: "CHR 0x0D \<notin> set s" by (auto simp: list_ex_iff special_def)
  have u: "universal_newlines (quote_field s) = s" "universal_newlines s = s"
    using False by (simp_all only: un_quote_field un_plain [OF cr] if_False)
  show ?thesis
  proof (cases s)
    case Nil
    have "records_of \<lparr>rstate = START_FIELD, rfield = [], rfields = F\<rparr>
        (Some CHR 0x0A # None # rest) =
      records_of \<lparr>rstate = EAT_CRNL, rfield = [], rfields = F @ [[]]\<rparr> (None # rest)"
      by (rule records_of_step [OF pc_end(1)])
    then show ?thesis unfolding u unfolding Nil by (simp add: end_of_record)
  next
    case (Cons c s')
    with False have c: "\<not> special c" and s': "\<not> list_ex special s'" by simp_all
    have "eol_marks s = Some c # map Some s'"
      using plain_field_marks [OF False] by (simp add: Cons)
    then have "records_of \<lparr>rstate = START_FIELD, rfield = [], rfields = F\<rparr>
       (eol_marks s @ Some CHR 0x0A # None # rest) =
      records_of \<lparr>rstate = IN_FIELD, rfield = [c], rfields = F\<rparr>
       (map Some s' @ Some CHR 0x0A # None # rest)"
      using records_of_step [OF pc_start(3) [OF st c]] by simp
    also have "\<dots> = records_of \<lparr>rstate = IN_FIELD, rfield = [c] @ s', rfields = F\<rparr>
       (Some CHR 0x0A # None # rest)"
      using s' by (rule in_field_chars)
    also have "\<dots> = records_of \<lparr>rstate = EAT_CRNL, rfield = [], rfields = F @ [s]\<rparr> (None # rest)"
      by (simp only: records_of_step [OF pc_in_field(2)] Cons append_Cons append_Nil)
    finally show ?thesis unfolding u by (simp add: end_of_record)
  qed
qed

lemma join_Cons2:
  "cs \<noteq> [] \<Longrightarrow> join sep (c # cs) = c @ sep @ join sep cs"
  by (cases cs) simp_all

lemma fields_then_eol:
  assumes "cols \<noteq> []"
  shows "records_of \<lparr>rstate = START_FIELD, rfield = [], rfields = F\<rparr>
     (eol_marks (universal_newlines (join '','' (map quote_field cols))) @
      Some CHR 0x0A # None # rest) =
   (case records_of parse_reset rest of
      Inl e \<Rightarrow> Inl e
    | Inr rs \<Rightarrow> Inr ((F @ map universal_newlines cols) # rs))"
  using assms
proof (induction cols arbitrary: F rule: list_nonempty_induct)
  case (single c)
  show ?case unfolding list.map join.simps by (rule field_then_eol)
next
  case (cons c cs)
  from cons.hyps have "join '','' (map quote_field (c # cs)) =
    quote_field c @ CHR '','' # join '','' (map quote_field cs)"
    by (simp add: join_Cons2)
  then have "universal_newlines (join '','' (map quote_field (c # cs))) =
    universal_newlines (quote_field c) @ CHR '','' #
      universal_newlines (join '','' (map quote_field cs))"
    using un_append_char [of "CHR '',''" "quote_field c" "join '','' (map quote_field cs)"]
    by simp
  then have "eol_marks (universal_newlines (join '','' (map quote_field (c # cs)))) @
      Some CHR 0x0A # None # rest =
    eol_marks (universal_newlines (quote_field c)) @ Some CHR '','' #
      (eol_marks (universal_newlines (join '','' (map quote_field cs))) @
       Some CHR 0x0A # None # rest)"
    by (simp add: eol_marks_append)
  then have "records_of \<lparr>rstate = START_FIELD, rfield = [], rfields = F\<rparr>
     (eol_marks (universal_newlines (join '','' (map quote_field (c # cs)))) @
      Some CHR 0x0A # None # rest) =
    records_of \<lparr>rstate = START_FIELD, rfield = [], rfields = F @ [universal_newlines c]\<rparr>
     (eol_marks (universal_newlines (join '','' (map quote_field cs))) @
      Some CHR 0x0A # None # rest)"
    by (simp only: field_then_comma [of START_FIELD, simplified])
  also have "\<dots> = (case records_of parse_reset rest of
      Inl e \<Rightarrow> Inl e
    | Inr rs \<Rightarrow> Inr (((F @ [universal_newlines c]) @ map universal_newlines cs) # rs))"
    by (rule cons.IH)
  finally show ?case by (simp cong: sum.case_cong)
qed

lemma record_then_eol:
  assumes "cs \<noteq> []"
  shows "records_of parse_reset
     (eol_marks (universal_newlines (csv_record (c # cs) @ b))) =
   (case records_of parse_reset (eol_marks (universal_newlines b)) of
      Inl e \<Rightarrow> Inl e
    | Inr rs \<Rightarrow> Inr (map universal_newlines (c # cs) # rs))"
proof -
  let ?rest = "eol_marks (universal_newlines (join '','' (map quote_field cs))) @
       Some CHR 0x0A # None # eol_marks (universal_newlines b)"
  from assms have "join '','' (map quote_field (c # cs)) =
    quote_field c @ CHR '','' # join '','' (map quote_field cs)"
    by (simp add: join_Cons2)
  then have j: "universal_newlines (join '','' (quote_field c # map quote_field cs)) =
    universal_newlines (quote_field c) @ CHR '','' #
      universal_newlines (join '','' (map quote_field cs))"
    using un_append_char [of "CHR '',''" "quote_field c" "join '','' (map quote_field cs)"]
    by simp
  have "universal_newlines (csv_record (c # cs) @ b) =
    universal_newlines (join '','' (map quote_field (c # cs))) @ CHR 0x0A # universal_newlines b"
    using un_crlf [of "join '','' (map quote_field (c # cs))" b] by (simp add: csv_record_def)
  then have "eol_marks (universal_newlines (csv_record (c # cs) @ b)) =
    eol_marks (universal_newlines (quote_field c)) @ Some CHR '','' # ?rest"
    by (simp add: j eol_marks_append)
  then have "records_of parse_reset (eol_marks (universal_newlines (csv_record (c # cs) @ b))) =
    records_of \<lparr>rstate = START_FIELD, rfield = [], rfields = [] @ [universal_newlines c]\<rparr> ?rest"
    by (simp only: parse_reset_def field_then_comma [of START_RECORD, simplified])
  also have "\<dots> = (case records_of parse_reset (eol_marks (universal_newlines b)) of
      Inl e \<Rightarrow> Inl e
    | Inr rs \<Rightarrow> Inr ((([] @ [universal_newlines c]) @ map universal_newlines cs) # rs))"
    using assms by (rule fields_then_eol)
  finally show ?thesis by (simp cong: sum.case_cong)
qed

lemma records_of_csv_records:
  assumes "\<forall>cols\<in>set rows. 2 \<le> length cols"
  shows "records_of parse_reset (eol_marks (universal_newlines (concat (map csv_record rows)))) =
    Inr (map (map universal_newlines) rows)"
  using assms
proof (induction rows)
  case Nil
  show ?case by (simp add: records_of.simps parse_reset_def)
next
  case (Cons r rows)
  then obtain c cs where r: "r = c # cs" and cs: "cs \<noteq> []"
    by (cases r; cases "tl r") auto
  from Cons have IH: "records_of parse_reset
      (eol_marks (universal_newlines (concat (map csv_record rows)))) =
    Inr (map (map universal_newlines) rows)" by simp
  show ?case
    unfolding r list.map concat.simps record_then_eol [OF cs] IH by simp
qed

lemma un_csv_records_end:
  assumes "rows \<noteq> []"
  shows "last (universal_newlines (concat (map csv_record rows))) = CHR 0x0A"
proof -
  from assms obtain xs x where "rows = xs @ [x]" by (cases rows rule: rev_cases) auto
  then have "concat (map csv_record rows) =
    (concat (map csv_record xs) @ join '','' (map quote_field x)) @ [CHR 0x0D, CHR 0x0A] @ []"
    by (simp add: csv_record_def)
  then show ?thesis by (simp only: un_crlf) simp
qed

lemma csv_rows_table:
  assumes "\<forall>cols\<in>set rows. 2 \<le> length cols"
  shows "csv_rows parse_reset (readlines (universal_newlines (concat (map csv_record rows)))) =
    Inr (map (map universal_newlines) rows)"
proof -
  have "universal_newlines (concat (map csv_record rows)) \<noteq> [] \<longrightarrow>
    last (universal_newlines (concat (map csv_record rows))) = CHR 0x0A"
    by (cases "rows = []") (simp_all add: un_csv_records_end)
  then show ?thesis
    by (simp only: csv_rows_text records_of_csv_records [OF assms])
qed

lemma of_char_digit_char: "d < 10 \<Longrightarrow> (of_char (digit_char d) :: nat) = 48 + d"
  by (simp add: digit_char_def)

lemma isdigit_digit_char: "d < 10 \<Longrightarrow> isdigit (digit_char d)"
  by (simp add: isdigit_def of_char_digit_char)

lemma digit_val_digit_char: "d < 10 \<Longrightarrow> digit_val (digit_char d) = int d"
  by (simp add: digit_val_def of_char_digit_char)

lemma str_nat_digits: "list_all isdigit (str_nat n)"
proof (induction n rule: str_nat.induct)
  case (1 n)
  show ?case
  proof (cases "n < 10")
    case True
    then show ?thesis by (simp add: str_nat.simps [of n] isdigit_digit_char)
  next
    case False
    with 1 show ?thesis by (simp add: str_nat.simps [of n] isdigit_digit_char)
  qed
qed

lemma str_nat_not_Nil: "str_nat n \<noteq> []"
  by (simp add: str_nat.simps [of n])

lemma decimal_value_snoc: "decimal_value (s @ [c]) = 10 * decimal_value s + digit_val c"
  by (simp add: decimal_value_def)

lemma decimal_value_str_nat: "decimal_value (str_nat n) = int n"
proof (induction n rule: str_nat.induct)
  case (1 n)
  show ?case
  proof (cases "n < 10")
    case True
    then show ?thesis by (simp add: str_nat.simps [of n] decimal_value_def digit_val_digit_char)
  next
    case False
    with 1 have "decimal_value (str_nat (n div 10)) = int (n div 10)" by simp
    moreover have "10 * int (n div 10) + int (n mod 10) = int n"
      by (simp add: zdiv_int zmod_int)
    ultimately show ?thesis using False
      by (simp add: str_nat.simps [of n] decimal_value_snoc digit_val_digit_char)
  qed
qed

lemma isdigit_plain:
  assumes "isdigit c"
  shows "\<not> isspace c" "\<not> special c" "c \<noteq> CHR ''_''" "c \<noteq> CHR ''-''" "c \<noteq> CHR ''+''"
    "c \<noteq> CHR 0x0D"
  using assms by (auto simp: isdigit_def isspace_def special_def Let_def)

lemma strip_plain:
  assumes "s \<noteq> []" and "\<not> P (hd s)" and "\<not> P (last s)"
  shows "rev (dropWhile P (rev (dropWhile P s))) = s"
proof -
  from assms have "dropWhile P s = s" by (cases s) simp_all
  moreover from assms have "dropWhile P (rev s) = rev s"
    by (cases "rev s") (simp_all add: last_rev [symmetric] del: last_rev)
  ultimately show ?thesis by simp
qed

lemma isdigit_not_int_space: "isdigit c \<Longrightarrow> \<not> int_space c"
  by (auto simp: int_space_def isdigit_def Let_def)

lemma digits_ok_digits:
  assumes "s \<noteq> []" and "list_all isdigit s"
  shows "digits_ok s" and "filter (\<lambda>c. c \<noteq> CHR ''_'') s = s"
proof -
  from assms have h: "isdigit (hd s)" "isdigit (last s)" by (auto simp: list_all_iff)
  have "\<not> list_ex (\<lambda>(a, b). a = CHR ''_'' \<and> b = CHR ''_'') (zip s (tl s))"
    using assms(2) isdigit_plain(3) by (auto simp: list_ex_iff list_all_iff dest!: set_zip_leftD)
  with assms h show "digits_ok s" by (auto simp: digits_ok_def list_all_iff)
  show "filter (\<lambda>c. c \<noteq> CHR ''_'') s = s"
    using assms(2) isdigit_plain(3) by (auto simp: list_all_iff intro!: filter_True)
qed

lemma int_of_text_digits:
  assumes "s \<noteq> []" and "list_all isdigit s"
  shows "int_of_text s = Some (decimal_value s)" and "int_of_text (CHR ''-'' # s) = Some (- decimal_value s)"
proof -
  from assms have h: "isdigit (hd s)" "isdigit (last s)" by (auto simp: list_all_iff)
  then have "rev (dropWhile int_space (rev (dropWhile int_space s))) = s"
    using assms(1) by (intro strip_plain) (simp_all add: isdigit_not_int_space)
  moreover have "hd s \<noteq> CHR ''-''" "hd s \<noteq> CHR ''+''" using h by (simp_all add: isdigit_plain)
  ultimately show "int_of_text s = Some (decimal_value s)"
    using assms by (simp add: int_of_text_def digits_ok_digits)
  have "\<not> int_space CHR ''-''" by (simp add: int_space_def)
  then have "rev (dropWhile int_space (rev (dropWhile int_space (CHR ''-'' # s)))) =
      CHR ''-'' # s"
    using assms(1) h by (intro strip_plain) (simp_all add: isdigit_not_int_space)
  then show "int_of_text (CHR ''-'' # s) = Some (- decimal_value s)"
    using assms by (simp add: int_of_text_def digits_ok_digits)
qed

lemma int_of_text_str_int: "int_of_text (str_int i) = Some i"
  by (simp add: str_int_def int_of_text_digits str_nat_not_Nil str_nat_digits decimal_value_str_nat)

lemma str_int_plain: "\<not> list_ex special (str_int i)"
  using str_nat_digits [of "nat i"] str_nat_digits [of "nat (- i)"] isdigit_plain(2)
  by (auto simp: str_int_def list_ex_iff list_all_iff special_def)

lemma not_special_un: "\<not> list_ex special s \<Longrightarrow> universal_newlines s = s"
  by (rule un_plain) (auto simp: list_ex_iff special_def)

lemma un_fieldnames: "map universal_newlines fieldnames = fieldnames"
  by (simp add: fieldnames_def)

lemma cells_as_row:
  "map (cell_text h) (map (map_of (as_row r)) fieldnames) =
   [rr_implementation r, rr_language r, str_int (rr_size r), float_repr h (rr_time_sec r),
    str_int (rr_max_rss_kb r), str_int (rr_nodes r), float_repr h (rr_solutions r)]"
  by (simp add: as_row_def fieldnames_def cell_text_def)

lemma row_line_as_row:
  "row_line h (as_row r) = csv_record
     [rr_implementation r, rr_language r, str_int (rr_size r), float_repr h (rr_time_sec r),
      str_int (rr_max_rss_kb r), str_int (rr_nodes r), float_repr h (rr_solutions r)]"
  by (simp only: row_line_def cells_as_row)

lemma table_text_as_rows:
  "table_text h (map as_row rs) =
   concat (map csv_record (fieldnames # map (\<lambda>r.
     [rr_implementation r, rr_language r, str_int (rr_size r), float_repr h (rr_time_sec r),
      str_int (rr_max_rss_kb r), str_int (rr_nodes r), float_repr h (rr_solutions r)]) rs))"
  by (simp add: table_text_def row_line_as_row comp_def)

lemma write_results_table:
  assumes "fst (write_results h rows p w) = Inr ()" and "list_all well_keyed rows"
  shows "fs_nodes (snd (write_results h rows p w)) p = Some (File (table_text h rows))"
proof -
  let ?closing = "\<lambda>w. case relative_to p (ROOT h) of
      Inl e \<Rightarrow> (Inl e, w) | Inr x \<Rightarrow> (Inr (), w :: world)"
  from assms(1) obtain w5 where "write_results h rows p w = (Inr (), w5)"
    by (cases "write_results h rows p w") simp
  then have all: "seq (mkdir True (RESULTS_DIR h)) (seq (open_w p) (seq (writeheader h p)
      (seq (write_rows h p rows) ?closing))) w = (Inr (), w5)"
    by (simp only: write_results_def)
  from all obtain w1 where
    "seq (open_w p) (seq (writeheader h p) (seq (write_rows h p rows) ?closing)) w1 =
      (Inr (), w5)"
    by (rule seq_Inr)
  then obtain w2 where o: "open_w p w1 = (Inr (), w2)" and
    "seq (writeheader h p) (seq (write_rows h p rows) ?closing) w2 = (Inr (), w5)"
    by (rule seq_Inr)
  then obtain w3 where hd: "writeheader h p w2 = (Inr (), w3)" and
    "seq (write_rows h p rows) ?closing w3 = (Inr (), w5)"
    by (auto elim: seq_Inr)
  then obtain w4 where wr: "write_rows h p rows w3 = (Inr (), w4)" and
    "?closing w4 = (Inr (), w5)"
    by (auto elim: seq_Inr)
  then have "w5 = w4" by (simp split: sum.splits)
  moreover have "fs_nodes w4 p = Some (File (table_text h rows))"
    using o hd wr assms(2) by (rule table_written)
  ultimately show ?thesis
    using \<open>write_results h rows p w = (Inr (), w5)\<close> by simp
qed

lemma to_dict_fieldnames:
  "to_dict fieldnames [a, b, c, d, e, f, g] =
   [(Some ''implementation'', VStr a), (Some ''language'', VStr b), (Some ''size'', VStr c),
    (Some ''time_sec'', VStr d), (Some ''max_rss_kb'', VStr e), (Some ''nodes'', VStr f),
    (Some ''solutions'', VStr g)]"
  by (simp add: to_dict_def fieldnames_def)

lemma convert_row_texts:
  assumes "host_float h d = Some x" and "host_float h g = Some y"
  shows "convert_row h
    [(Some ''implementation'', VStr a), (Some ''language'', VStr b),
     (Some ''size'', VStr (str_int i)), (Some ''time_sec'', VStr d),
     (Some ''max_rss_kb'', VStr (str_int j)), (Some ''nodes'', VStr (str_int k)),
     (Some ''solutions'', VStr g)] =
   Inr [(Some ''implementation'', VStr a), (Some ''language'', VStr b),
     (Some ''size'', VInt i), (Some ''time_sec'', VFloat x),
     (Some ''max_rss_kb'', VInt j), (Some ''nodes'', VInt k),
     (Some ''solutions'', VFloat y)]"
  using assms
  by (simp add: convert_row_def convert_int_def convert_float_def and_then_def
      int_of_text_str_int)

lemma dict_of_record:
  assumes "floats_round_trip h r"
  shows "convert_row h (to_dict fieldnames
     [universal_newlines (rr_implementation r), universal_newlines (rr_language r),
      universal_newlines (str_int (rr_size r)), universal_newlines (float_repr h (rr_time_sec r)),
      universal_newlines (str_int (rr_max_rss_kb r)), universal_newlines (str_int (rr_nodes r)),
      universal_newlines (float_repr h (rr_solutions r))]) =
    Inr (read_back r)"
proof -
  from assms have f: "host_float h (float_repr h (rr_time_sec r)) = Some (rr_time_sec r)"
      "host_float h (float_repr h (rr_solutions r)) = Some (rr_solutions r)"
    and u: "universal_newlines (float_repr h (rr_time_sec r)) = float_repr h (rr_time_sec r)"
      "universal_newlines (float_repr h (rr_solutions r)) = float_repr h (rr_solutions r)"
    by (simp_all add: floats_round_trip_def float_round_trip_def not_special_un)
  have i: "\<And>i. universal_newlines (str_int i) = str_int i"
    by (rule not_special_un) (rule str_int_plain)
  show ?thesis
    unfolding u i to_dict_fieldnames read_back_def
    using f by (rule convert_row_texts)
qed

lemma convert_rows_read_back:
  assumes "list_all (floats_round_trip h) rs"
  shows "convert_rows h (map (\<lambda>r. to_dict fieldnames
     [universal_newlines (rr_implementation r), universal_newlines (rr_language r),
      universal_newlines (str_int (rr_size r)), universal_newlines (float_repr h (rr_time_sec r)),
      universal_newlines (str_int (rr_max_rss_kb r)), universal_newlines (str_int (rr_nodes r)),
      universal_newlines (float_repr h (rr_solutions r))]) rs) =
    Inr (map read_back rs)"
  using assms
proof (induction rs)
  case Nil
  show ?case by simp
next
  case (Cons r rs)
  then have r: "floats_round_trip h r" and rs: "list_all (floats_round_trip h) rs" by simp_all
  show ?case
    unfolding list.map convert_rows.simps dict_of_record [OF r] Cons.IH [OF rs]
    by (simp add: and_then_def)
qed

lemma read_table_text:
  assumes "list_all (floats_round_trip h) rs"
  shows "and_then (csv_rows parse_reset (readlines (universal_newlines
      (table_text h (map as_row rs)))))
    (\<lambda>records. convert_rows h (dict_reader records)) = Inr (map read_back rs)"
proof -
  let ?cols = "\<lambda>r. [rr_implementation r, rr_language r, str_int (rr_size r),
    float_repr h (rr_time_sec r), str_int (rr_max_rss_kb r), str_int (rr_nodes r),
    float_repr h (rr_solutions r)]"
  have "\<forall>cols\<in>set (fieldnames # map ?cols rs). 2 \<le> length cols"
    by (simp add: fieldnames_def)
  then have "csv_rows parse_reset (readlines (universal_newlines
      (concat (map csv_record (fieldnames # map ?cols rs))))) =
    Inr (map (map universal_newlines) (fieldnames # map ?cols rs))"
    by (rule csv_rows_table)
  then have c: "csv_rows parse_reset (readlines (universal_newlines
      (table_text h (map as_row rs)))) =
    Inr (fieldnames # map (map universal_newlines) (map ?cols rs))"
    by (simp only: table_text_as_rows list.map(2) un_fieldnames)
  have "filter (\<lambda>r. r \<noteq> []) (map (map universal_newlines) (map ?cols rs)) =
    map (map universal_newlines) (map ?cols rs)"
    by (rule filter_True) auto
  then have d: "dict_reader (fieldnames # map (map universal_newlines) (map ?cols rs)) =
    map (\<lambda>r. to_dict fieldnames
     [universal_newlines (rr_implementation r), universal_newlines (rr_language r),
      universal_newlines (str_int (rr_size r)), universal_newlines (float_repr h (rr_time_sec r)),
      universal_newlines (str_int (rr_max_rss_kb r)), universal_newlines (str_int (rr_nodes r)),
      universal_newlines (float_repr h (rr_solutions r))]) rs"
    by (simp add: dict_reader_def comp_def)
  show ?thesis
    by (simp only: c and_then_def sum.case d convert_rows_read_back [OF assms])
qed

text \<open>
  C8. A sequence of Result Records written by \<^verbatim>\<open>write_results\<close> and read back by
  \<^verbatim>\<open>read_rows\<close> comes back as the same sequence: as many rows, in the same order, the
  integers \<^verbatim>\<open>size\<close>, \<^verbatim>\<open>max_rss_kb\<close> and \<^verbatim>\<open>nodes\<close> equal to the ones written, and the
  floats \<^verbatim>\<open>time_sec\<close> and \<^verbatim>\<open>solutions\<close> equal to the ones written wherever the host's
  \<^verbatim>\<open>float\<close> reads back what its \<^verbatim>\<open>repr\<close> prints.  The two texts of a row come back with
  their line breaks as line feeds.
\<close>

theorem write_then_read_rows:
  assumes "fst (write_results h (map as_row rs) output_path w) = Inr ()"
    and "list_all (floats_round_trip h) rs"
  shows "read_rows h output_path (snd (write_results h (map as_row rs) output_path w)) =
    Inr (map read_back rs)"
proof -
  have "list_all well_keyed (map as_row rs)"
    by (simp add: list_all_iff well_keyed_as_row)
  with assms(1) have "fs_nodes (snd (write_results h (map as_row rs) output_path w)) output_path =
    Some (File (table_text h (map as_row rs)))"
    by (rule write_results_table)
  then show ?thesis
    by (simp add: read_rows_def read_table_text [OF assms(2)])
qed

theorem write_then_read_rows_witness:
  "fst (write_results example_host
         (map as_row [example_record ''BuDDy'' 4, example_record ''x,y'' 12])
         [''/'', ''repo'', ''results'', ''nqueens_metrics.csv''] example_world) = Inr () \<and>
   list_all (floats_round_trip example_host)
     [example_record ''BuDDy'' 4, example_record ''x,y'' 12] \<and>
   read_rows example_host [''/'', ''repo'', ''results'', ''nqueens_metrics.csv'']
     (snd (write_results example_host
         (map as_row [example_record ''BuDDy'' 4, example_record ''x,y'' 12])
         [''/'', ''repo'', ''results'', ''nqueens_metrics.csv''] example_world)) =
     Inr (map read_back [example_record ''BuDDy'' 4, example_record ''x,y'' 12])"
proof -
  have a: "fst (write_results example_host
         (map as_row [example_record ''BuDDy'' 4, example_record ''x,y'' 12])
         [''/'', ''repo'', ''results'', ''nqueens_metrics.csv''] example_world) = Inr ()"
    by code_simp
  have b: "list_all (floats_round_trip example_host)
     [example_record ''BuDDy'' 4, example_record ''x,y'' 12]"
    by code_simp
  from write_then_read_rows [OF a b] a b show ?thesis by blast
qed

end
